theory Spec2Isabelle
  imports Complex_Main
begin

section \<open>Data model\<close>

text \<open>
  Timestamps are UTC instants in microseconds (the resolution of Python's
  \<^verbatim>\<open>datetime\<close>); \<^verbatim>\<open>timedelta(minutes=m)\<close> is \<open>minutes m\<close>.
  Risk percentages are Python floats; they are modelled as reals, so the
  comparison \<^verbatim>\<open>total <= threshold_pct + 1e-9\<close> is exact here.
\<close>

type_synonym timestamp = int

definition minutes :: "int \<Rightarrow> int" where
  "minutes m = m * 60000000"

record position =
  ticket :: int
  symbol :: string
  side :: int
  volume :: real
  open_time :: "timestamp option"

record snapshot =
  total_risk_pct :: real
  positions :: "position list"

text \<open>
  The dictionary kept in \<^verbatim>\<open>.riskguard_limits.json\<close>. A key that is missing
  (or holds \<^verbatim>\<open>null\<close>) is \<open>None\<close>; \<^verbatim>\<open>last_attempt_at\<close> is the instant
  that \<^verbatim>\<open>_from_iso_any\<close> parses from the stored text, \<open>None\<close> when it
  parses nothing.
\<close>

record limits_state =
  baseline_tickets :: "int list option"
  block_attempts :: "int option"
  last_attempt_at :: "timestamp option"
  risk_block_active :: "bool option"

definition empty_state :: limits_state where
  "empty_state = \<lparr>baseline_tickets = None, block_attempts = None,
     last_attempt_at = None, risk_block_active = None\<rparr>"

text \<open>Calls that leave the process, in the order they are made.\<close>

datatype effect = CloseCall int | ArmCall timestamp | AutoOnCall

record world =
  limits_file :: limits_state
  kill_until :: "timestamp option"
  effects :: "effect list"

datatype error = SnapshotError | CloseError | ArmError

datatype close_outcome = CloseOk | CloseFailed | CloseRaises

text \<open>
  What the collaborators answer during one call: the clock (one instant for
  the whole call), \<^verbatim>\<open>reader.snapshot()\<close> (\<open>None\<close> when it raises),
  \<^verbatim>\<open>close_position_full\<close> per ticket, and whether \<^verbatim>\<open>set_kill_until\<close>
  raises.
\<close>

record tick =
  now :: timestamp
  reader_snapshot :: "snapshot option"
  close_position_full :: "int \<Rightarrow> close_outcome"
  arm_raises :: bool

record report =
  rep_now_utc :: timestamp
  rep_threshold_pct :: real
  rep_total_risk_pct :: real
  rep_positions :: nat
  rep_baseline_tickets :: "int list"
  new_tickets_detected :: "int list"
  closed_rep :: "(int \<times> string) list"
  failed_rep :: "(int \<times> string) list"
  attempts_before :: int
  attempts_after :: int
  risk_block_active_before :: bool
  risk_block_active_after :: bool
  kill_switch_active_before :: bool
  kill_switch_active_after :: bool
  kill_switch_until_before :: "timestamp option"
  kill_switch_until_after :: "timestamp option"
  kill_switch_armed_now :: bool
  rep_block_minutes :: int

section \<open>State store and kill switch\<close>

definition load_state :: "world \<Rightarrow> limits_state" where
  "load_state w = limits_file w"

definition save_state :: "limits_state \<Rightarrow> world \<Rightarrow> world" where
  "save_state d w = w\<lparr>limits_file := d\<rparr>"

text \<open>
  Modelled from the spec: \<^verbatim>\<open>kill_switch.py\<close> (\<^verbatim>\<open>kill_status\<close>,
  \<^verbatim>\<open>set_kill_until\<close>) is not among the sources. Section 4.2: the switch is
  active iff \<open>until\<close> is present and strictly greater than now, and the status
  carries \<open>until\<close> as stored.
\<close>

definition kill_status :: "timestamp \<Rightarrow> world \<Rightarrow> bool \<times> timestamp option" where
  "kill_status nw w =
     (case kill_until w of None \<Rightarrow> (False, None) | Some u \<Rightarrow> (nw < u, Some u))"

text \<open>
  Modelled from the spec: arming sets \<open>until\<close> to the later of the stored and
  the given instant (section 4.2). The call is logged when it is made; a call
  that raises leaves the switch as it was.
\<close>

definition set_kill_until :: "bool \<Rightarrow> timestamp \<Rightarrow> world \<Rightarrow> (error + unit) \<times> world" where
  "set_kill_until raises t w =
     (let w1 = w\<lparr>effects := effects w @ [ArmCall t]\<rparr>
      in if raises then (Inl ArmError, w1)
         else (Inr (),
               w1\<lparr>kill_until :=
                    (case kill_until w of
                       None \<Rightarrow> Some t
                     | Some u \<Rightarrow> if u < t then Some t else Some u)\<rparr>))"

section \<open>Aggregate risk enforcer (limits.py)\<close>

definition baseline_of :: "limits_state \<Rightarrow> int list" where
  "baseline_of st = (case baseline_tickets st of None \<Rightarrow> [] | Some b \<Rightarrow> b)"

definition attempts_of :: "limits_state \<Rightarrow> int" where
  "attempts_of st = (case block_attempts st of None \<Rightarrow> 0 | Some a \<Rightarrow> a)"

definition flag_of :: "limits_state \<Rightarrow> bool" where
  "flag_of st = (case risk_block_active st of None \<Rightarrow> False | Some b \<Rightarrow> b)"

text \<open>Lines 83-85: the stored attempts are stale.\<close>

definition decayed :: "timestamp \<Rightarrow> int \<Rightarrow> limits_state \<Rightarrow> bool" where
  "decayed nw block_minutes st =
     (0 < attempts_of st \<and>
      (case last_attempt_at st of
         None \<Rightarrow> False
       | Some l \<Rightarrow> max 1 block_minutes * 60 * 1000000 \<le> nw - l))"

text \<open>Lines 145-159: the loop that closes the positions whose ticket is new.\<close>

fun close_new_tickets ::
  "(int \<Rightarrow> close_outcome) \<Rightarrow> int list \<Rightarrow> position list \<Rightarrow>
   (int \<times> string) list \<times> (int \<times> string) list \<Rightarrow> world \<Rightarrow>
   (error + (int \<times> string) list \<times> (int \<times> string) list) \<times> world" where
  "close_new_tickets cl new [] acc w = (Inr acc, w)"
| "close_new_tickets cl new (p # ps) acc w =
     (if ticket p \<in> set new then
        (let w1 = w\<lparr>effects := effects w @ [CloseCall (ticket p)]\<rparr>
         in case cl (ticket p) of
              CloseRaises \<Rightarrow> (Inl CloseError, w1)
            | CloseOk \<Rightarrow>
                close_new_tickets cl new ps (fst acc @ [(ticket p, symbol p)], snd acc) w1
            | CloseFailed \<Rightarrow>
                close_new_tickets cl new ps (fst acc, snd acc @ [(ticket p, symbol p)]) w1)
      else close_new_tickets cl new ps acc w)"

text \<open>Lines 111-120: first run, the baseline is created and nothing is closed.\<close>

definition first_run_branch ::
  "int list \<Rightarrow> int \<Rightarrow> bool \<Rightarrow> limits_state \<Rightarrow> report \<Rightarrow> world \<Rightarrow> (error + report) \<times> world" where
  "first_run_branch tickets_current attempts risk_block st rep w =
     (let st1 = st\<lparr>baseline_tickets := Some (sort tickets_current),
                    block_attempts := Some attempts,
                    risk_block_active := Some risk_block\<rparr>
      in (Inr (rep\<lparr>rep_baseline_tickets := sort tickets_current,
                    attempts_after := attempts,
                    risk_block_active_after := risk_block\<rparr>),
          save_state st1 w))"

text \<open>Lines 124-137: risk within the threshold, the baseline follows the snapshot.\<close>

definition within_threshold_branch ::
  "int list \<Rightarrow> int \<Rightarrow> bool \<Rightarrow> bool \<Rightarrow> limits_state \<Rightarrow> report \<Rightarrow> world \<Rightarrow>
   (error + report) \<times> world" where
  "within_threshold_branch tickets_current attempts risk_block kill_active_before st rep w =
     (let reset = (risk_block \<and> \<not> kill_active_before);
          attempts1 = (if reset then 0 else attempts);
          st1 = (if reset then st\<lparr>last_attempt_at := None\<rparr> else st);
          risk_block1 = (if reset then False else risk_block);
          st2 = st1\<lparr>baseline_tickets := Some (sort tickets_current),
                     block_attempts := Some attempts1,
                     risk_block_active := Some risk_block1\<rparr>
      in (Inr (rep\<lparr>rep_baseline_tickets := sort tickets_current,
                    attempts_after := attempts1,
                    risk_block_active_after := risk_block1\<rparr>),
          save_state st2 w))"

text \<open>Lines 139-198: risk exceeded, new tickets are closed and counted.\<close>

definition exceeded_branch ::
  "tick \<Rightarrow> int \<Rightarrow> int \<Rightarrow> snapshot \<Rightarrow> int list \<Rightarrow> int list \<Rightarrow> int \<Rightarrow> bool \<Rightarrow> bool \<Rightarrow>
   limits_state \<Rightarrow> report \<Rightarrow> world \<Rightarrow> (error + report) \<times> world" where
  "exceeded_branch tk max_block_attempts block_minutes snap baseline tickets_current
       attempts risk_block kill_active_before st rep w =
     (let new_tickets = filter (\<lambda>t. t \<notin> set baseline) tickets_current;
          rep1 = rep\<lparr>new_tickets_detected := new_tickets\<rparr>
      in case close_new_tickets (close_position_full tk) new_tickets (positions snap) ([], []) w of
           (Inl e, w1) \<Rightarrow> (Inl e, w1)
         | (Inr (cl, fl), w1) \<Rightarrow>
             (let attempts1 = (if new_tickets \<noteq> [] then attempts + int (length new_tickets)
                               else attempts);
                  st1 = (if new_tickets \<noteq> [] then st\<lparr>last_attempt_at := Some (now tk)\<rparr> else st);
                  st2 = st1\<lparr>block_attempts := Some attempts1\<rparr>;
                  rep2 = rep1\<lparr>closed_rep := cl, failed_rep := fl, attempts_after := attempts1\<rparr>;
                  reached = (max_block_attempts \<le> attempts1);
                  risk_block1 = (if reached then True else risk_block);
                  try_arm = (reached \<and> \<not> kill_active_before);
                  until = now tk + minutes (max 1 block_minutes);
                  armed = (if try_arm then set_kill_until (arm_raises tk) until w1
                           else (Inr (), w1));
                  w2 = snd armed;
                  rep3 = (if try_arm then
                            (case fst armed of
                               Inr u \<Rightarrow> rep2\<lparr>kill_switch_armed_now := True,
                                            kill_switch_active_after := fst (kill_status (now tk) w2),
                                            kill_switch_until_after := snd (kill_status (now tk) w2)\<rparr>
                             | Inl e \<Rightarrow> rep2\<lparr>kill_switch_active_after := False,
                                            kill_switch_until_after := None\<rparr>)
                          else rep2);
                  rep4 = (if kill_switch_armed_now rep3 then rep3
                          else rep3\<lparr>kill_switch_active_after := fst (kill_status (now tk) w2),
                                    kill_switch_until_after := snd (kill_status (now tk) w2)\<rparr>);
                  risk_block2 = (if kill_switch_active_after rep4 then True else risk_block1);
                  st3 = st2\<lparr>risk_block_active := Some risk_block2\<rparr>
              in (Inr (rep4\<lparr>risk_block_active_after := risk_block2\<rparr>), save_state st3 w2)))"

definition enforce_aggregate_risk ::
  "tick \<Rightarrow> real \<Rightarrow> int \<Rightarrow> int \<Rightarrow> world \<Rightarrow> (error + report) \<times> world" where
  "enforce_aggregate_risk tk threshold_pct max_block_attempts block_minutes w =
     (case reader_snapshot tk of
        None \<Rightarrow> (Inl SnapshotError, w)
      | Some snap \<Rightarrow>
          (let total = total_risk_pct snap;
               tickets_current = remdups (map ticket (positions snap));
               st = load_state w;
               baseline = baseline_of st;
               kill_active_before = fst (kill_status (now tk) w);
               kill_until_before = snd (kill_status (now tk) w);
               risk_block = (flag_of st \<or> kill_active_before);
               dec = decayed (now tk) block_minutes st;
               attempts = (if dec then 0 else attempts_of st);
               st1 = (if dec then st\<lparr>block_attempts := Some 0, last_attempt_at := None\<rparr> else st);
               rep = \<lparr>rep_now_utc = now tk,
                      rep_threshold_pct = threshold_pct,
                      rep_total_risk_pct = total,
                      rep_positions = length tickets_current,
                      rep_baseline_tickets = baseline,
                      new_tickets_detected = [],
                      closed_rep = [],
                      failed_rep = [],
                      attempts_before = attempts,
                      attempts_after = attempts,
                      risk_block_active_before = risk_block,
                      risk_block_active_after = risk_block,
                      kill_switch_active_before = kill_active_before,
                      kill_switch_active_after = kill_active_before,
                      kill_switch_until_before = kill_until_before,
                      kill_switch_until_after = kill_until_before,
                      kill_switch_armed_now = False,
                      rep_block_minutes = block_minutes\<rparr>
           in if baseline = [] then
                first_run_branch tickets_current attempts risk_block st1 rep w
              else if total \<le> threshold_pct + 1 / 1000000000 then
                within_threshold_branch tickets_current attempts risk_block kill_active_before
                  st1 rep w
              else
                exceeded_branch tk max_block_attempts block_minutes snap baseline tickets_current
                  attempts risk_block kill_active_before st1 rep w))"

section \<open>Callers of the aggregate risk enforcer\<close>

text \<open>
  limits_watch.py, lines 25-61: the watch loop calls the enforcer once per
  tick, with \<^verbatim>\<open>THRESHOLD_PCT\<close>, \<^verbatim>\<open>MAX_ATTEMPTS\<close> and the enforcer's default
  block minutes. Only \<^verbatim>\<open>KeyboardInterrupt\<close> is handled, so any exception of
  the enforcer ends the loop. The tick list is the finite part of the
  collaborators' answers under consideration; the printing, logging and
  notification of the loop body are left out.
\<close>

datatype loop_exit = Running | Crashed error

fun limits_watch_main :: "real \<Rightarrow> int \<Rightarrow> int \<Rightarrow> tick list \<Rightarrow> world \<Rightarrow> loop_exit \<times> world" where
  "limits_watch_main THRESHOLD_PCT MAX_ATTEMPTS DEFAULT_BLOCK_MINUTES [] w = (Running, w)"
| "limits_watch_main THRESHOLD_PCT MAX_ATTEMPTS DEFAULT_BLOCK_MINUTES (tk # tks) w =
     (case enforce_aggregate_risk tk THRESHOLD_PCT MAX_ATTEMPTS DEFAULT_BLOCK_MINUTES w of
        (Inl e, w1) \<Rightarrow> (Crashed e, w1)
      | (Inr rep, w1) \<Rightarrow>
          limits_watch_main THRESHOLD_PCT MAX_ATTEMPTS DEFAULT_BLOCK_MINUTES tks w1)"

text \<open>
  Successive calls of the enforcer on the persisted state, whoever makes them:
  a call that raises yields no report and the next call starts from the world
  it left behind.
\<close>

fun enforce_ticks :: "real \<Rightarrow> int \<Rightarrow> int \<Rightarrow> tick list \<Rightarrow> world \<Rightarrow> report list \<times> world" where
  "enforce_ticks th n bm [] w = ([], w)"
| "enforce_ticks th n bm (tk # tks) w =
     (case enforce_aggregate_risk tk th n bm w of
        (Inl e, w1) \<Rightarrow> enforce_ticks th n bm tks w1
      | (Inr rep, w1) \<Rightarrow>
          (rep # fst (enforce_ticks th n bm tks w1), snd (enforce_ticks th n bm tks w1)))"

section \<open>Writing the state file (limits.py, lines 33-35)\<close>

text \<open>
  \<^verbatim>\<open>open(STATE_FILE, "w")\<close> truncates the file and gives a buffered text
  file; \<^verbatim>\<open>json.dump\<close> writes the chunks of the encoder one after the
  other, and leaving the \<^verbatim>\<open>with\<close> block closes the file. Written text is
  held in memory: it reaches the file when at least \<open>bs\<close> bytes are pending
  (8192 in CPython), and when the file is closed. The state is the text of
  the file (\<open>None\<close> when it does not exist) and the pending text;
  \<open>save_state_crash bs k\<close> is the file left behind when the process dies
  after \<open>k\<close> of these steps, the pending text being lost.
\<close>

datatype fs_op = OpenTruncate | WriteChunk string | CloseFile

fun apply_fs_op :: "nat \<Rightarrow> string option \<times> string \<Rightarrow> fs_op \<Rightarrow> string option \<times> string" where
  "apply_fs_op bs (f, buf) OpenTruncate = (Some [], [])"
| "apply_fs_op bs (f, buf) (WriteChunk s) =
     (if bs \<le> length (buf @ s)
      then (Some ((case f of None \<Rightarrow> [] | Some t \<Rightarrow> t) @ buf @ s), [])
      else (f, buf @ s))"
| "apply_fs_op bs (f, buf) CloseFile =
     (Some ((case f of None \<Rightarrow> [] | Some t \<Rightarrow> t) @ buf), [])"

definition save_state_ops :: "string list \<Rightarrow> fs_op list" where
  "save_state_ops chunks = OpenTruncate # map WriteChunk chunks @ [CloseFile]"

definition save_state_crash :: "nat \<Rightarrow> nat \<Rightarrow> string list \<Rightarrow> string option \<Rightarrow> string option" where
  "save_state_crash bs k chunks f =
     fst (foldl (apply_fs_op bs) (f, []) (take k (save_state_ops chunks)))"

definition save_state_file :: "nat \<Rightarrow> string list \<Rightarrow> string option \<Rightarrow> string option" where
  "save_state_file bs chunks f = fst (foldl (apply_fs_op bs) (f, []) (save_state_ops chunks))"

section \<open>Event window enforcer (news_windows0.1.py, news_windows0.2.py)\<close>

record calendar_event =
  currency :: string
  ts_utc :: timestamp
  event :: string

record news_report =
  affected :: "(int \<times> string \<times> calendar_event list) list"
  news_closed :: "(int \<times> string) list"
  news_failed :: "(int \<times> string) list"
  news_kill_switch_until :: "timestamp option"

definition empty_news_report :: news_report where
  "empty_news_report = \<lparr>affected = [], news_closed = [], news_failed = [],
     news_kill_switch_until = None\<rparr>"

text \<open>Symbols are ASCII text: \<^verbatim>\<open>upper\<close> and \<^verbatim>\<open>isalpha\<close> on the letters a-z, A-Z.\<close>

definition ascii_lowercase :: string where
  "ascii_lowercase = ''abcdefghijklmnopqrstuvwxyz''"

definition ascii_uppercase :: string where
  "ascii_uppercase = ''ABCDEFGHIJKLMNOPQRSTUVWXYZ''"

definition upper :: "string \<Rightarrow> string" where
  "upper s = map (\<lambda>c. case map_of (zip ascii_lowercase ascii_uppercase) c of
                         None \<Rightarrow> c | Some u \<Rightarrow> u) s"

definition isalpha :: "string \<Rightarrow> bool" where
  "isalpha s = (s \<noteq> [] \<and> list_all (\<lambda>c. c \<in> set (ascii_lowercase @ ascii_uppercase)) s)"

definition map_symbol_currencies :: "string \<Rightarrow> string list" where
  "map_symbol_currencies sy =
     (let s = upper sy
      in if 6 \<le> length s \<and> isalpha (take 3 s) \<and> isalpha (take 3 (drop 3 s))
         then [take 3 s, take 3 (drop 3 s)]
         else [drop (length s - 3) s])"

definition find_events ::
  "calendar_event list \<Rightarrow> string list \<Rightarrow> timestamp \<Rightarrow> int \<Rightarrow> calendar_event list" where
  "find_events df currencies now_utc window_min =
     (let lo = now_utc - minutes window_min;
          hi = now_utc + minutes window_min
      in filter (\<lambda>r. currency r \<in> set currencies \<and> lo \<le> ts_utc r \<and> ts_utc r \<le> hi) df)"

text \<open>
  news_windows0.2.py, lines 136-216: the loop over the positions. An exception
  inside the body (here: of the close call) skips the rest of the body.
\<close>

fun news_loop_v2 ::
  "tick \<Rightarrow> calendar_event list \<Rightarrow> int \<Rightarrow> int \<Rightarrow> position list \<Rightarrow>
   news_report \<Rightarrow> timestamp option \<Rightarrow> world \<Rightarrow> news_report \<times> timestamp option \<times> world" where
  "news_loop_v2 tk df window_min recent_s [] rep max_until w = (rep, max_until, w)"
| "news_loop_v2 tk df window_min recent_s (pos # ps) rep max_until w =
     (if symbol pos = [] then news_loop_v2 tk df window_min recent_s ps rep max_until w
      else case open_time pos of
        None \<Rightarrow> news_loop_v2 tk df window_min recent_s ps rep max_until w
      | Some ot \<Rightarrow>
          if recent_s * 1000000 < now tk - ot
          then news_loop_v2 tk df window_min recent_s ps rep max_until w
          else if find_events df (map_symbol_currencies (symbol pos)) (now tk) window_min = []
          then news_loop_v2 tk df window_min recent_s ps rep max_until w
          else
            (let matches = find_events df (map_symbol_currencies (symbol pos)) (now tk) window_min;
                 w1 = w\<lparr>effects := effects w @ [CloseCall (ticket pos)]\<rparr>;
                 this_until = Max (set (map ts_utc matches)) + minutes window_min
             in case close_position_full tk (ticket pos) of
                  CloseRaises \<Rightarrow> news_loop_v2 tk df window_min recent_s ps rep max_until w1
                | CloseOk \<Rightarrow>
                    news_loop_v2 tk df window_min recent_s ps
                      (rep\<lparr>news_closed := news_closed rep @ [(ticket pos, symbol pos)],
                            affected := affected rep @ [(ticket pos, symbol pos, matches)]\<rparr>)
                      (case max_until of
                         None \<Rightarrow> Some this_until
                       | Some m \<Rightarrow> if m < this_until then Some this_until else Some m)
                      w1
                | CloseFailed \<Rightarrow>
                    news_loop_v2 tk df window_min recent_s ps
                      (rep\<lparr>news_failed := news_failed rep @ [(ticket pos, symbol pos)],
                            affected := affected rep @ [(ticket pos, symbol pos, matches)]\<rparr>)
                      (case max_until of
                         None \<Rightarrow> Some this_until
                       | Some m \<Rightarrow> if m < this_until then Some this_until else Some m)
                      w1))"

text \<open>
  news_windows0.2.py, lines 106-232. The kill switch is armed after the loop;
  that call is outside every handler. The notification is left out.
\<close>

definition enforce_news_window_v2 ::
  "tick \<Rightarrow> calendar_event list \<Rightarrow> int \<Rightarrow> int option \<Rightarrow> world \<Rightarrow> (error + news_report) \<times> world" where
  "enforce_news_window_v2 tk events_df window_min recent_s w =
     (let recent = (case recent_s of None \<Rightarrow> window_min * 60 | Some r \<Rightarrow> r)
      in case reader_snapshot tk of
           None \<Rightarrow> (Inr empty_news_report, w)
         | Some snap \<Rightarrow>
             (let res = news_loop_v2 tk events_df window_min recent (positions snap)
                          empty_news_report None w;
                  rep = fst res;
                  max_until = fst (snd res);
                  w1 = snd (snd res)
              in if affected rep = [] then (Inr rep, w1)
                 else case max_until of
                   None \<Rightarrow> (Inr rep, w1)
                 | Some mu \<Rightarrow>
                     (case set_kill_until (arm_raises tk) mu w1 of
                        (Inl e, w2) \<Rightarrow> (Inl e, w2)
                      | (Inr u, w2) \<Rightarrow> (Inr (rep\<lparr>news_kill_switch_until := Some mu\<rparr>), w2))))"

text \<open>
  news_windows0.1.py, lines 123-172: AutoTrading is switched on before each
  close and the kill switch is armed inside the loop body, after each close.
\<close>

fun news_loop_v1 ::
  "tick \<Rightarrow> calendar_event list \<Rightarrow> int \<Rightarrow> int \<Rightarrow> position list \<Rightarrow>
   news_report \<Rightarrow> world \<Rightarrow> news_report \<times> world" where
  "news_loop_v1 tk df window_min recent_s [] rep w = (rep, w)"
| "news_loop_v1 tk df window_min recent_s (pos # ps) rep w =
     (if symbol pos = [] then news_loop_v1 tk df window_min recent_s ps rep w
      else case open_time pos of
        None \<Rightarrow> news_loop_v1 tk df window_min recent_s ps rep w
      | Some ot \<Rightarrow>
          if recent_s * 1000000 < now tk - ot
          then news_loop_v1 tk df window_min recent_s ps rep w
          else if find_events df (map_symbol_currencies (symbol pos)) (now tk) window_min = []
          then news_loop_v1 tk df window_min recent_s ps rep w
          else
            (let matches = find_events df (map_symbol_currencies (symbol pos)) (now tk) window_min;
                 w1 = w\<lparr>effects := effects w @ [AutoOnCall, CloseCall (ticket pos)]\<rparr>;
                 until = Max (set (map ts_utc matches)) + minutes window_min
             in case close_position_full tk (ticket pos) of
                  CloseRaises \<Rightarrow> news_loop_v1 tk df window_min recent_s ps rep w1
                | CloseOk \<Rightarrow>
                    (case set_kill_until (arm_raises tk) until w1 of
                       (Inl e, w2) \<Rightarrow>
                         news_loop_v1 tk df window_min recent_s ps
                           (rep\<lparr>news_closed := news_closed rep @ [(ticket pos, symbol pos)],
                                 news_kill_switch_until := Some until\<rparr>) w2
                     | (Inr u, w2) \<Rightarrow>
                         news_loop_v1 tk df window_min recent_s ps
                           (rep\<lparr>news_closed := news_closed rep @ [(ticket pos, symbol pos)],
                                 news_kill_switch_until := Some until,
                                 affected := affected rep @ [(ticket pos, symbol pos, matches)]\<rparr>)
                           w2)
                | CloseFailed \<Rightarrow>
                    (case set_kill_until (arm_raises tk) until w1 of
                       (Inl e, w2) \<Rightarrow>
                         news_loop_v1 tk df window_min recent_s ps
                           (rep\<lparr>news_failed := news_failed rep @ [(ticket pos, symbol pos)],
                                 news_kill_switch_until := Some until\<rparr>) w2
                     | (Inr u, w2) \<Rightarrow>
                         news_loop_v1 tk df window_min recent_s ps
                           (rep\<lparr>news_failed := news_failed rep @ [(ticket pos, symbol pos)],
                                 news_kill_switch_until := Some until,
                                 affected := affected rep @ [(ticket pos, symbol pos, matches)]\<rparr>)
                           w2)))"

text \<open>news_windows0.1.py, lines 98-174.\<close>

definition enforce_news_window_v1 ::
  "tick \<Rightarrow> calendar_event list \<Rightarrow> int \<Rightarrow> int option \<Rightarrow> world \<Rightarrow> (error + news_report) \<times> world" where
  "enforce_news_window_v1 tk events_df window_min recent_s w =
     (let recent = (case recent_s of None \<Rightarrow> window_min * 60 | Some r \<Rightarrow> r)
      in case reader_snapshot tk of
           None \<Rightarrow> (Inr empty_news_report, w)
         | Some snap \<Rightarrow>
             (let res = news_loop_v1 tk events_df window_min recent (positions snap)
                          empty_news_report w
              in (Inr (fst res), snd res)))"

section \<open>Example inputs\<close>

definition example_position :: "int \<Rightarrow> string \<Rightarrow> timestamp \<Rightarrow> position" where
  "example_position t s ot = \<lparr>ticket = t, symbol = s, side = 0, volume = 1, open_time = Some ot\<rparr>"

definition example_tick :: "timestamp \<Rightarrow> real \<Rightarrow> position list \<Rightarrow> tick" where
  "example_tick n r ps =
     \<lparr>now = n, reader_snapshot = Some \<lparr>total_risk_pct = r, positions = ps\<rparr>,
      close_position_full = (\<lambda>t. CloseOk), arm_raises = False\<rparr>"

definition example_world :: "limits_state \<Rightarrow> timestamp option \<Rightarrow> world" where
  "example_world st ku = \<lparr>limits_file = st, kill_until = ku, effects = []\<rparr>"

definition example_events :: "calendar_event list" where
  "example_events =
     [\<lparr>currency = ''USD'', ts_utc = 3000000000, event = ''Non-Farm Payrolls''\<rparr>,
      \<lparr>currency = ''JPY'', ts_utc = 600000000, event = ''BoJ Rate Decision''\<rparr>]"

definition example_news_tick :: tick where
  "example_news_tick = example_tick 0 0
     [example_position 1 ''EURUSD'' (- 10000000), example_position 2 ''GBPJPY'' (- 5000000)]"

definition unreachable_tick :: "timestamp \<Rightarrow> tick" where
  "unreachable_tick n = \<lparr>now = n, reader_snapshot = None,
      close_position_full = (\<lambda>t. CloseOk), arm_raises = False\<rparr>"

definition example_state :: "int list \<Rightarrow> int \<Rightarrow> timestamp option \<Rightarrow> bool \<Rightarrow> limits_state" where
  "example_state b a l f = \<lparr>baseline_tickets = Some b, block_attempts = Some a,
     last_attempt_at = l, risk_block_active = Some f\<rparr>"

definition two_positions :: "position list" where
  "two_positions = [example_position 1 ''EURUSD'' 0, example_position 2 ''EURUSD'' 0]"

text \<open>The text of a state file, \<^verbatim>\<open>{"block_attempts": 2}\<close>.\<close>

definition example_state_text :: string where
  "example_state_text = ''{'' @ [CHR 0x22] @ ''block_attempts'' @ [CHR 0x22] @ '': 2}''"

text \<open>
  The chunks that \<^verbatim>\<open>json.dump(d, f, ensure_ascii=False, indent=2)\<close> writes
  for \<^verbatim>\<open>{"block_attempts": 3}\<close>.
\<close>

definition example_chunks :: "string list" where
  "example_chunks =
     [''{'', [CHR 0x0A] @ ''  '', [CHR 0x22] @ ''block_attempts'' @ [CHR 0x22], '': '', ''3'',
      [CHR 0x0A], ''}'']"

section \<open>Notions of the specification\<close>

text \<open>
  Section 4.4 of the specification: the combined expiry of a batch is the
  latest event timestamp over all matches of all affected positions, plus the
  window.
\<close>

definition batch_until :: "(int \<times> string \<times> calendar_event list) list \<Rightarrow> int \<Rightarrow> timestamp" where
  "batch_until aff window_min =
     Max (set (concat (map (\<lambda>a. map ts_utc (snd (snd a))) aff))) + minutes window_min"


text \<open>
  What holds of the report and of \<^verbatim>\<open>max_until\<close> between two rounds of the
  loop of news_windows0.2.py.
\<close>

definition loop_inv :: "news_report \<Rightarrow> timestamp option \<Rightarrow> int \<Rightarrow> bool" where
  "loop_inv rep mu wm =
     (list_all (\<lambda>a. snd (snd a) \<noteq> []) (affected rep) \<and>
      (case mu of
         None \<Rightarrow> affected rep = []
       | Some m \<Rightarrow> affected rep \<noteq> [] \<and> m = batch_until (affected rep) wm))"

section \<open>Quantities of one call of the aggregate risk enforcer\<close>

text \<open>The attempts the call starts from: lines 73 and 83-88.\<close>

definition effective_attempts :: "tick \<Rightarrow> int \<Rightarrow> world \<Rightarrow> int" where
  "effective_attempts tk bm w =
     (if decayed (now tk) bm (limits_file w) then 0 else attempts_of (limits_file w))"

text \<open>The tickets of the snapshot that are not in the stored baseline: lines 140-141.\<close>

definition new_tickets_of :: "world \<Rightarrow> snapshot \<Rightarrow> int list" where
  "new_tickets_of w snap =
     filter (\<lambda>t. t \<notin> set (baseline_of (limits_file w))) (remdups (map ticket (positions snap)))"

text \<open>No close call of the tick raises.\<close>

definition never_raises :: "tick \<Rightarrow> snapshot \<Rightarrow> bool" where
  "never_raises tk snap =
     list_all (\<lambda>p. close_position_full tk (ticket p) \<noteq> CloseRaises) (positions snap)"

section \<open>Runs of the aggregate risk enforcer\<close>





text \<open>
  The two resets of the counter that a call with the risk within the threshold
  can make: the stale attempts of lines 83-88, and the clean reset of lines
  126-129 (a block is recorded, the kill switch is not active, and the call is
  not a first run).
\<close>

definition resets_attempts :: "tick \<Rightarrow> int \<Rightarrow> world \<Rightarrow> bool" where
  "resets_attempts tk bm w =
     (decayed (now tk) bm (limits_file w) \<or>
      (baseline_of (limits_file w) \<noteq> [] \<and> flag_of (limits_file w) \<and>
       \<not> fst (kill_status (now tk) w)))"

text \<open>
  The ticket is in the snapshot of the tick, or is not; a tick without a
  snapshot says nothing about it.
\<close>

definition ticket_present :: "int \<Rightarrow> tick \<Rightarrow> bool" where
  "ticket_present t tk =
     (case reader_snapshot tk of None \<Rightarrow> True | Some snap \<Rightarrow> t \<in> set (map ticket (positions snap)))"

definition ticket_absent :: "int \<Rightarrow> tick \<Rightarrow> bool" where
  "ticket_absent t tk =
     (case reader_snapshot tk of None \<Rightarrow> True | Some snap \<Rightarrow> t \<notin> set (map ticket (positions snap)))"


definition reappearing_ticket :: "tick list" where
  "reappearing_ticket =
     [example_tick 1000 3 two_positions,
      example_tick 2000 3 [example_position 2 ''EURUSD'' 0],
      example_tick 3000 7 two_positions]"

definition tolerated_ticket_run :: "tick list" where
  "tolerated_ticket_run =
     [example_tick 2000 7 (two_positions @ [example_position 3 ''USDJPY'' 1500])]"

section \<open>First run of the aggregate risk enforcer\<close>

text \<open>
  Claim C8. Whenever the persisted baseline is empty or absent (also when an
  earlier first run stored the empty list) and the snapshot is delivered, the
  call takes the first-run branch: it returns a report, makes no call to the
  trading engine or the kill switch, reports no new ticket, no closure and no
  failure, does not increase the attempts, and stores the sorted tickets of
  the snapshot as the new baseline, however large the total risk is. So every
  position of that snapshot is in the baseline afterwards.
\<close>

theorem first_run_when_baseline_empty:
  assumes "baseline_of (limits_file w) = []" and "reader_snapshot tk = Some snap"
  shows "\<exists>rep w'. enforce_aggregate_risk tk th n bm w = (Inr rep, w') \<and>
           effects w' = effects w \<and> kill_until w' = kill_until w \<and>
           new_tickets_detected rep = [] \<and> closed_rep rep = [] \<and> failed_rep rep = [] \<and>
           attempts_after rep = attempts_before rep \<and>
           attempts_of (limits_file w') = attempts_after rep \<and>
           attempts_of (limits_file w') \<le> attempts_of (limits_file w) \<and>
           baseline_tickets (limits_file w') = Some (sort (remdups (map ticket (positions snap)))) \<and>
           set (baseline_of (limits_file w')) = ticket ` set (positions snap)"
  using assms
  by (auto simp: enforce_aggregate_risk_def Let_def first_run_branch_def load_state_def
        save_state_def attempts_of_def baseline_of_def decayed_def split: option.splits)

text \<open>
  The state left by a first run without positions, then a tick with total risk
  9 against a threshold of 5 and one open position: nothing is closed and
  ticket 7 becomes the baseline.
\<close>

theorem first_run_when_baseline_empty_witness:
  "baseline_of (limits_file (example_world (empty_state\<lparr>baseline_tickets := Some []\<rparr>) None)) = [] \<and>
   reader_snapshot (example_tick 1000 9 [example_position 7 ''EURUSD'' 900]) =
     Some \<lparr>total_risk_pct = 9, positions = [example_position 7 ''EURUSD'' 900]\<rparr> \<and>
   (\<exists>rep w'. enforce_aggregate_risk (example_tick 1000 9 [example_position 7 ''EURUSD'' 900]) 5 3 60
        (example_world (empty_state\<lparr>baseline_tickets := Some []\<rparr>) None) = (Inr rep, w') \<and>
      effects w' = [] \<and> new_tickets_detected rep = [] \<and> closed_rep rep = [] \<and>
      attempts_of (limits_file w') = 0 \<and>
      baseline_tickets (limits_file w') = Some [7])"
proof -
  let ?w = "example_world (empty_state\<lparr>baseline_tickets := Some []\<rparr>) None"
  let ?tk = "example_tick 1000 9 [example_position 7 ''EURUSD'' 900]"
  let ?snap = "\<lparr>total_risk_pct = 9, positions = [example_position 7 ''EURUSD'' 900]\<rparr>"
  have h1: "baseline_of (limits_file ?w) = []"
    by (simp add: baseline_of_def example_world_def empty_state_def)
  have h2: "reader_snapshot ?tk = Some ?snap"
    by (simp add: example_tick_def)
  from first_run_when_baseline_empty [OF h1 h2, of 5 3 60]
  obtain rep w' where
    r: "enforce_aggregate_risk ?tk 5 3 60 ?w = (Inr rep, w')"
      "effects w' = effects ?w"
      "new_tickets_detected rep = []" "closed_rep rep = []"
      "baseline_tickets (limits_file w') = Some (sort (remdups (map ticket (positions ?snap))))"
    by blast
  have a0: "attempts_of (limits_file w') = 0"
    using r(1)
    by (auto simp: enforce_aggregate_risk_def Let_def first_run_branch_def load_state_def
        save_state_def attempts_of_def baseline_of_def decayed_def example_world_def
        example_tick_def empty_state_def)
  show ?thesis using h1 h2 r a0
    by (simp add: example_world_def example_position_def)
qed

section \<open>A snapshot that cannot be taken\<close>

lemma enforce_aggregate_risk_snapshot_raises:
  "reader_snapshot tk = None \<Longrightarrow> enforce_aggregate_risk tk th n bm w = (Inl SnapshotError, w)"
  by (simp add: enforce_aggregate_risk_def)

lemma enforce_news_window_snapshot_raises:
  "reader_snapshot tk = None \<Longrightarrow>
     enforce_news_window_v2 tk df wm rs w = (Inr empty_news_report, w) \<and>
     enforce_news_window_v1 tk df wm rs w = (Inr empty_news_report, w)"
  by (simp add: enforce_news_window_v2_def enforce_news_window_v1_def)

text \<open>
  Claim C4. The claim: a tick on which \<^verbatim>\<open>snapshot()\<close> raises is skipped
  with no state change and the control loop neither crashes nor ends. Both
  event window enforcers do that (\<open>enforce_news_window_snapshot_raises\<close>).
  The aggregate risk enforcer calls \<^verbatim>\<open>reader.snapshot()\<close> outside every
  handler: the exception leaves it, with the state unchanged
  (\<open>enforce_aggregate_risk_snapshot_raises\<close>), and the watch loop, which
  handles \<^verbatim>\<open>KeyboardInterrupt\<close> only, ends with it. Here the first tick
  cannot be taken: the loop ends and the second tick is never looked at.
\<close>

theorem limits_watch_ends_on_snapshot_failure:
  "limits_watch_main 5 3 60 [unreachable_tick 1000, example_tick 2000 3 []]
     (example_world empty_state None)
   = (Crashed SnapshotError, example_world empty_state None)"
  by (simp add: enforce_aggregate_risk_def unreachable_tick_def)

section \<open>Arming the kill switch from the event window\<close>

lemma map_symbol_currencies_EURUSD: "map_symbol_currencies ''EURUSD'' = [''EUR'', ''USD'']"
  by (simp add: map_symbol_currencies_def upper_def isalpha_def ascii_lowercase_def
        ascii_uppercase_def)

lemma map_symbol_currencies_GBPJPY: "map_symbol_currencies ''GBPJPY'' = [''GBP'', ''JPY'']"
  by (simp add: map_symbol_currencies_def upper_def isalpha_def ascii_lowercase_def
        ascii_uppercase_def)

lemma batch_until_snoc:
  assumes "ms \<noteq> []" "list_all (\<lambda>a. snd (snd a) \<noteq> []) aff"
  shows "batch_until (aff @ [(t, s, ms)]) wm =
     (if aff = [] then Max (set (map ts_utc ms)) + minutes wm
      else max (batch_until aff wm) (Max (set (map ts_utc ms)) + minutes wm))"
proof (cases "aff = []")
  case True
  then show ?thesis by (simp add: batch_until_def)
next
  case False
  let ?A = "set (concat (map (\<lambda>a. map ts_utc (snd (snd a))) aff))"
  have ne: "?A \<noteq> {}" using False assms(2) by (cases aff) auto
  have "Max (?A \<union> set (map ts_utc ms)) = max (Max ?A) (Max (set (map ts_utc ms)))"
    using ne assms(1) by (intro Max_Un) auto
  then show ?thesis using False by (simp add: batch_until_def)
qed

lemma loop_inv_step:
  assumes "loop_inv rep mu wm" "ms \<noteq> []" "affected rep1 = affected rep @ [(t, s, ms)]"
  shows "loop_inv rep1
     (case mu of None \<Rightarrow> Some (Max (set (map ts_utc ms)) + minutes wm)
      | Some m \<Rightarrow> if m < Max (set (map ts_utc ms)) + minutes wm
                  then Some (Max (set (map ts_utc ms)) + minutes wm) else Some m) wm"
proof -
  have la: "list_all (\<lambda>a. snd (snd a) \<noteq> []) (affected rep)"
    using assms(1) by (simp add: loop_inv_def)
  show ?thesis
    using assms batch_until_snoc [OF assms(2) la, of t s wm]
    by (auto simp: loop_inv_def split: option.splits)
qed

lemma news_loop_v2_inv:
  "news_loop_v2 tk df wm rs ps rep mu w = (rep', mu', w') \<Longrightarrow> loop_inv rep mu wm \<Longrightarrow>
   loop_inv rep' mu' wm \<and> kill_until w' = kill_until w \<and> limits_file w' = limits_file w \<and>
   news_kill_switch_until rep' = news_kill_switch_until rep \<and>
   (\<exists>cs. effects w' = effects w @ map CloseCall cs \<and>
         fst ` set (affected rep') \<subseteq> fst ` set (affected rep) \<union> set cs)"
proof (induction ps arbitrary: rep mu w)
  case Nil
  then show ?case by auto
next
  case (Cons pos ps)
  let ?ms = "find_events df (map_symbol_currencies (symbol pos)) (now tk) wm"
  let ?w1 = "w\<lparr>effects := effects w @ [CloseCall (ticket pos)]\<rparr>"
  let ?tu = "Max (set (map ts_utc ?ms)) + minutes wm"
  let ?mu1 = "(case mu of None \<Rightarrow> Some ?tu | Some m \<Rightarrow> if m < ?tu then Some ?tu else Some m)"
  let ?repc = "rep\<lparr>news_closed := news_closed rep @ [(ticket pos, symbol pos)],
              affected := affected rep @ [(ticket pos, symbol pos, ?ms)]\<rparr>"
  let ?repf = "rep\<lparr>news_failed := news_failed rep @ [(ticket pos, symbol pos)],
              affected := affected rep @ [(ticket pos, symbol pos, ?ms)]\<rparr>"
  consider (skip) "news_loop_v2 tk df wm rs ps rep mu w = (rep', mu', w')"
    | (raised) "news_loop_v2 tk df wm rs ps rep mu ?w1 = (rep', mu', w')"
    | (ok) "?ms \<noteq> []" "news_loop_v2 tk df wm rs ps ?repc ?mu1 ?w1 = (rep', mu', w')"
    | (failed) "?ms \<noteq> []" "news_loop_v2 tk df wm rs ps ?repf ?mu1 ?w1 = (rep', mu', w')"
    using Cons.prems(1)
    by (auto simp: Let_def split: if_splits option.splits close_outcome.splits)
  then show ?case
  proof cases
    case skip
    from Cons.IH [OF skip Cons.prems(2)] show ?thesis .
  next
    case raised
    from Cons.IH [OF raised Cons.prems(2)] obtain cs where
      a: "loop_inv rep' mu' wm" "kill_until w' = kill_until w" "limits_file w' = limits_file w"
         "news_kill_switch_until rep' = news_kill_switch_until rep"
         "effects w' = effects w @ CloseCall (ticket pos) # map CloseCall cs"
         "fst ` set (affected rep') \<subseteq> fst ` set (affected rep) \<union> set cs"
      by auto
    have "effects w' = effects w @ map CloseCall (ticket pos # cs)" using a(5) by simp
    moreover have "fst ` set (affected rep') \<subseteq> fst ` set (affected rep) \<union> set (ticket pos # cs)"
      using a(6) by auto
    ultimately show ?thesis using a(1-4) by blast
  next
    case ok
    have i1: "loop_inv ?repc ?mu1 wm"
      by (rule loop_inv_step [OF Cons.prems(2) ok(1)]) simp
    from Cons.IH [OF ok(2) i1] obtain cs where
      a: "loop_inv rep' mu' wm" "kill_until w' = kill_until w" "limits_file w' = limits_file w"
         "news_kill_switch_until rep' = news_kill_switch_until rep"
         "effects w' = effects w @ CloseCall (ticket pos) # map CloseCall cs"
         "fst ` set (affected rep') \<subseteq> fst ` set (affected rep) \<union> {ticket pos} \<union> set cs"
      by auto
    have "effects w' = effects w @ map CloseCall (ticket pos # cs)" using a(5) by simp
    moreover have "fst ` set (affected rep') \<subseteq> fst ` set (affected rep) \<union> set (ticket pos # cs)"
      using a(6) by auto
    ultimately show ?thesis using a(1-4) by blast
  next
    case failed
    have i1: "loop_inv ?repf ?mu1 wm"
      by (rule loop_inv_step [OF Cons.prems(2) failed(1)]) simp
    from Cons.IH [OF failed(2) i1] obtain cs where
      a: "loop_inv rep' mu' wm" "kill_until w' = kill_until w" "limits_file w' = limits_file w"
         "news_kill_switch_until rep' = news_kill_switch_until rep"
         "effects w' = effects w @ CloseCall (ticket pos) # map CloseCall cs"
         "fst ` set (affected rep') \<subseteq> fst ` set (affected rep) \<union> {ticket pos} \<union> set cs"
      by auto
    have "effects w' = effects w @ map CloseCall (ticket pos # cs)" using a(5) by simp
    moreover have "fst ` set (affected rep') \<subseteq> fst ` set (affected rep) \<union> set (ticket pos # cs)"
      using a(6) by auto
    ultimately show ?thesis using a(1-4) by blast
  qed
qed

lemma enforce_news_window_v2_arms_once_after_closes:
  assumes "enforce_news_window_v2 tk df wm rs w = (Inr rep, w')" and "affected rep \<noteq> []"
  shows "\<exists>cs. effects w' = effects w @ map CloseCall cs @ [ArmCall (batch_until (affected rep) wm)] \<and>
           fst ` set (affected rep) \<subseteq> set cs \<and>
           news_kill_switch_until rep = Some (batch_until (affected rep) wm)"
proof -
  obtain snap where sn: "reader_snapshot tk = Some snap"
    using assms by (cases "reader_snapshot tk") (auto simp: enforce_news_window_v2_def empty_news_report_def)
  let ?rs = "(case rs of None \<Rightarrow> wm * 60 | Some r \<Rightarrow> r)"
  obtain rep1 mu1 w1 where l: "news_loop_v2 tk df wm ?rs (positions snap) empty_news_report None w = (rep1, mu1, w1)"
    by (metis prod_cases3)
  have i0: "loop_inv empty_news_report None wm" by (simp add: loop_inv_def empty_news_report_def)
  from news_loop_v2_inv [OF l i0] obtain cs where
    a: "loop_inv rep1 mu1 wm" "effects w1 = effects w @ map CloseCall cs"
       "fst ` set (affected rep1) \<subseteq> set cs"
    by (auto simp: empty_news_report_def)
  show ?thesis
    using assms sn l a
    by (auto simp: enforce_news_window_v2_def Let_def loop_inv_def set_kill_until_def
          split: option.splits if_splits prod.splits sum.splits)
qed



text \<open>
  Claim C2. The claim: with a non-empty batch the kill switch is armed exactly
  once, only after a close was attempted for every affected position, and to
  the latest matched event plus the window. news_windows0.2.py does so
  (\<open>enforce_news_window_v2_arms_once_after_closes\<close>). news_windows0.1.py arms
  inside the loop body. Here two positions opened seconds ago match an event
  50 minutes ahead (USD) and one 10 minutes ahead (JPY), with a window of 60
  minutes: the switch is armed twice, the first time before the second close,
  and the report names the expiry of the last position (70 minutes), not the
  latest one (110 minutes).
\<close>

theorem enforce_news_window_v1_arms_inside_batch:
  "enforce_news_window_v1 example_news_tick example_events 60 None (example_world empty_state None) =
     (Inr \<lparr>affected =
             [(1, ''EURUSD'', [\<lparr>currency = ''USD'', ts_utc = 3000000000, event = ''Non-Farm Payrolls''\<rparr>]),
              (2, ''GBPJPY'', [\<lparr>currency = ''JPY'', ts_utc = 600000000, event = ''BoJ Rate Decision''\<rparr>])],
           news_closed = [(1, ''EURUSD''), (2, ''GBPJPY'')], news_failed = [],
           news_kill_switch_until = Some 4200000000\<rparr>,
      \<lparr>limits_file = empty_state, kill_until = Some 6600000000,
        effects = [AutoOnCall, CloseCall 1, ArmCall 6600000000,
                   AutoOnCall, CloseCall 2, ArmCall 4200000000]\<rparr>)"
  by (simp add: enforce_news_window_v1_def example_news_tick_def example_tick_def
        example_events_def example_world_def example_position_def empty_news_report_def
        find_events_def minutes_def set_kill_until_def map_symbol_currencies_EURUSD
        map_symbol_currencies_GBPJPY Let_def)

section \<open>Which positions the event window considers\<close>







section \<open>The state file is overwritten in place\<close>

lemma foldl_write_chunks:
  "\<exists>d' b'. foldl (apply_fs_op bs) (Some d, b) (map WriteChunk cs) = (Some d', b') \<and>
      d' @ b' = d @ b @ concat cs \<and>
      (length (b @ concat cs) < bs \<longrightarrow> d' = d)"
proof (induction cs arbitrary: d b)
  case Nil
  then show ?case by simp
next
  case (Cons c cs)
  show ?case
  proof (cases "bs \<le> length (b @ c)")
    case True
    from Cons.IH [of "d @ b @ c" "[]"] True show ?thesis by auto
  next
    case False
    from Cons.IH [of d "b @ c"] False show ?thesis by auto
  qed
qed

text \<open>
  Claim C7, amended. \<^verbatim>\<open>_save_state\<close> does not write a temporary file and
  rename it: it truncates the state file and writes the new text into it
  through a buffer. A save that is not started leaves the file as it was; a
  save that completes leaves the whole new text; a process that dies after the
  file was opened leaves a prefix of the new text, and the empty file whenever
  the new text is shorter than the buffer and the file was not yet closed. In
  no case after the open does the prior text remain.
\<close>

theorem save_state_overwrites_in_place:
  "save_state_crash bs 0 chunks f = f \<and>
   (\<exists>m. save_state_crash bs (Suc k) chunks f = Some (take m (concat chunks))) \<and>
   (length (concat chunks) < bs \<longrightarrow> k \<le> length chunks \<longrightarrow>
      save_state_crash bs (Suc k) chunks f = Some []) \<and>
   save_state_file bs chunks f = Some (concat chunks)"
proof -
  have c0: "save_state_crash bs 0 chunks f = f"
    by (simp add: save_state_crash_def)
  have full: "save_state_file bs chunks f = Some (concat chunks)"
  proof -
    from foldl_write_chunks [of bs "[]" "[]" chunks] obtain d' b' where
      "foldl (apply_fs_op bs) (Some [], []) (map WriteChunk chunks) = (Some d', b')"
      "d' @ b' = concat chunks"
      by auto
    then show ?thesis by (simp add: save_state_file_def save_state_ops_def)
  qed
  have mid: "\<exists>m. save_state_crash bs (Suc k) chunks f = Some (take m (concat chunks))"
  proof (cases "k \<le> length chunks")
    case True
    from foldl_write_chunks [of bs "[]" "[]" "take k chunks"] obtain d' b' where
      r: "foldl (apply_fs_op bs) (Some [], []) (map WriteChunk (take k chunks)) = (Some d', b')"
         "d' @ b' = concat (take k chunks)"
      by auto
    have "concat chunks = concat (take k chunks) @ concat (drop k chunks)"
      by (metis append_take_drop_id concat_append)
    then have "take (length d') (concat chunks) = d'" using r(2)
      by (metis append.assoc append_eq_conv_conj)
    then show ?thesis using r(1) True
      by (auto simp: save_state_crash_def save_state_ops_def take_map intro: exI [of _ "length d'"])
  next
    case False
    then have "take (Suc k) (save_state_ops chunks) = save_state_ops chunks"
      by (simp add: save_state_ops_def)
    then have "save_state_crash bs (Suc k) chunks f = Some (concat chunks)"
      using full by (simp add: save_state_crash_def save_state_file_def)
    then show ?thesis by (auto intro: exI [of _ "length (concat chunks)"])
  qed
  have small: "length (concat chunks) < bs \<longrightarrow> k \<le> length chunks \<longrightarrow>
      save_state_crash bs (Suc k) chunks f = Some []"
  proof (intro impI)
    assume s: "length (concat chunks) < bs" and k: "k \<le> length chunks"
    have "concat chunks = concat (take k chunks) @ concat (drop k chunks)"
      by (metis append_take_drop_id concat_append)
    then have "length (concat (take k chunks)) \<le> length (concat chunks)"
      by (metis length_append le_add1)
    with s have l: "length ([] @ concat (take k chunks)) < bs" by simp
    from foldl_write_chunks [of bs "[]" "[]" "take k chunks"] l obtain b' where
      "foldl (apply_fs_op bs) (Some [], []) (map WriteChunk (take k chunks)) = (Some [], b')"
      by auto
    then show "save_state_crash bs (Suc k) chunks f = Some []"
      using k by (simp add: save_state_crash_def save_state_ops_def take_map)
  qed
  from c0 mid small full show ?thesis by blast
qed

text \<open>
  Claim C7 as stated fails: saving the empty dictionary (one chunk, \<open>{}\<close>) over
  a state file and dying after the file was opened, before or after the
  chunk was written, leaves the empty file, which is neither the prior text
  nor the new one.
\<close>

theorem save_state_not_atomic:
  "save_state_crash 8192 1 [''{}''] (Some example_state_text) = Some [] \<and>
   save_state_crash 8192 2 [''{}''] (Some example_state_text) = Some [] \<and>
   Some [] \<noteq> Some example_state_text \<and>
   Some [] \<noteq> save_state_file 8192 [''{}''] (Some example_state_text)"
  by (simp add: save_state_crash_def save_state_file_def save_state_ops_def
        example_state_text_def)

text \<open>
  A state of 25 bytes in seven chunks, the process dying after the third
  chunk: the file is empty; the completed save holds the seven chunks.
\<close>

theorem save_state_overwrites_in_place_witness:
  "length (concat example_chunks) < 8192 \<and> 3 \<le> length example_chunks \<and>
   save_state_crash 8192 (Suc 3) example_chunks (Some example_state_text) = Some [] \<and>
   save_state_file 8192 example_chunks (Some example_state_text) = Some (concat example_chunks)"
proof -
  have h1: "length (concat example_chunks) < 8192" by (simp add: example_chunks_def)
  have h2: "3 \<le> length example_chunks" by (simp add: example_chunks_def)
  from save_state_overwrites_in_place [of 8192 example_chunks "Some example_state_text" 3] h1 h2
  show ?thesis by blast
qed

section \<open>The three branches of the aggregate risk enforcer\<close>

lemma close_new_tickets_world:
  "close_new_tickets cl new ps acc w = (r, w1) \<Longrightarrow>
     kill_until w1 = kill_until w \<and> limits_file w1 = limits_file w \<and>
     (\<exists>ts. effects w1 = effects w @ map CloseCall ts \<and> set ts \<subseteq> set new \<inter> ticket ` set ps)"
proof (induction ps arbitrary: acc w)
  case Nil
  then show ?case by auto
next
  case (Cons p ps)
  show ?case
  proof (cases "ticket p \<in> set new")
    case False
    with Cons.prems have "close_new_tickets cl new ps acc w = (r, w1)" by simp
    from Cons.IH [OF this] show ?thesis by auto
  next
    case True
    let ?w1 = "w\<lparr>effects := effects w @ [CloseCall (ticket p)]\<rparr>"
    show ?thesis
    proof (cases "cl (ticket p) = CloseRaises")
      case True
      with \<open>ticket p \<in> set new\<close> Cons.prems have w1: "w1 = ?w1" by (simp add: Let_def)
      have "effects w1 = effects w @ map CloseCall [ticket p]" using w1 by simp
      moreover have "set [ticket p] \<subseteq> set new \<inter> ticket ` set (p # ps)"
        using \<open>ticket p \<in> set new\<close> by simp
      moreover have "kill_until w1 = kill_until w" "limits_file w1 = limits_file w"
        using w1 by simp_all
      ultimately show ?thesis by blast
    next
      case False
      then obtain acc1 where "close_new_tickets cl new ps acc1 ?w1 = (r, w1)"
        using \<open>ticket p \<in> set new\<close> Cons.prems
        by (cases "cl (ticket p)") (auto simp: Let_def)
      from Cons.IH [OF this] obtain ts where
        t: "kill_until w1 = kill_until w" "limits_file w1 = limits_file w"
           "effects w1 = effects w @ map CloseCall (ticket p # ts)"
           "set ts \<subseteq> set new \<inter> ticket ` set ps"
        by auto
      have "set (ticket p # ts) \<subseteq> set new \<inter> ticket ` set (p # ps)"
        using t(4) \<open>ticket p \<in> set new\<close> by auto
      with t(1-3) show ?thesis by blast
    qed
  qed
qed

lemma close_new_tickets_returns:
  "list_all (\<lambda>p. cl (ticket p) \<noteq> CloseRaises) ps \<Longrightarrow>
     \<exists>c f. fst (close_new_tickets cl new ps acc w) = Inr (c, f)"
proof (induction ps arbitrary: acc w)
  case Nil
  then show ?case by (cases acc) auto
next
  case (Cons p ps)
  then show ?case
    by (cases "cl (ticket p)") (auto simp: Let_def)
qed



lemma exceeded_branch_result:
  assumes cl: "close_new_tickets (close_position_full tk) new (positions snap) ([], []) w
                 = (Inr (c, f), w1)"
      and new: "new = filter (\<lambda>t. t \<notin> set baseline) tickets"
      and na: "\<not> kill_switch_armed_now rep"
      and kab: "kab = fst (kill_status (now tk) w)"
      and a1: "a1 = a + int (length new)"
      and un: "un = now tk + minutes (max 1 bm)"
  shows "\<exists>rep' w'. exceeded_branch tk n bm snap baseline tickets a rb kab st rep w = (Inr rep', w') \<and>
      new_tickets_detected rep' = new \<and> closed_rep rep' = c \<and> failed_rep rep' = f \<and>
      attempts_before rep' = attempts_before rep \<and>
      attempts_after rep' = a1 \<and>
      block_attempts (limits_file w') = Some a1 \<and>
      baseline_tickets (limits_file w') = baseline_tickets st \<and>
      last_attempt_at (limits_file w') = (if new \<noteq> [] then Some (now tk) else last_attempt_at st) \<and>
      risk_block_active (limits_file w') = Some (risk_block_active_after rep') \<and>
      risk_block_active_after rep' = (rb \<or> n \<le> a1 \<or> kill_switch_active_after rep') \<and>
      kill_switch_active_after rep' = fst (kill_status (now tk) w') \<and>
      kill_switch_until_after rep' = snd (kill_status (now tk) w') \<and>
      kill_switch_armed_now rep' = (n \<le> a1 \<and> \<not> kab \<and> \<not> arm_raises tk) \<and>
      effects w' = effects w1 @ (if n \<le> a1 \<and> \<not> kab then [ArmCall un] else []) \<and>
      kill_until w' =
        (if n \<le> a1 \<and> \<not> kab \<and> \<not> arm_raises tk
         then (case kill_until w of None \<Rightarrow> Some un | Some u \<Rightarrow> if u < un then Some un else Some u)
         else kill_until w)"
proof -
  from close_new_tickets_world [OF cl]
  have w1: "kill_until w1 = kill_until w" by auto
  have cl': "close_new_tickets (close_position_full tk) (filter (\<lambda>t. t \<notin> set baseline) tickets)
      (positions snap) ([], []) w = (Inr (c, f), w1)"
    using cl new by simp
  have ks: "kill_status (now tk) w1 = kill_status (now tk) w"
    by (simp add: kill_status_def w1)
  have len: "(if new \<noteq> [] then a + int (length new) else a) = a1"
    using a1 by simp
  note defs = exceeded_branch_def Let_def cl' save_state_def set_kill_until_def
  consider (quiet) "\<not> (n \<le> a1 \<and> \<not> kab)"
    | (raises) "n \<le> a1" "\<not> kab" "arm_raises tk"
    | (arms) "n \<le> a1" "\<not> kab" "\<not> arm_raises tk"
    by blast
  then show ?thesis
  proof cases
    case quiet
    then show ?thesis
      unfolding exceeded_branch_def new [symmetric] cl Let_def len
      using na by (auto simp: save_state_def kab kill_status_def w1)
  next
    case raises
    then show ?thesis
      unfolding exceeded_branch_def new [symmetric] cl Let_def len
      using na ks by (auto simp: save_state_def set_kill_until_def kab un kill_status_def w1)
  next
    case arms
    then show ?thesis
      unfolding exceeded_branch_def new [symmetric] cl Let_def len un
      using na by (auto simp: save_state_def set_kill_until_def kab kill_status_def w1)
  qed
qed


lemma enforce_exceeded:
  assumes sn: "reader_snapshot tk = Some snap"
      and bl: "baseline_of (limits_file w) \<noteq> []"
      and ex: "\<not> total_risk_pct snap \<le> th + 1 / 1000000000"
      and cl: "close_new_tickets (close_position_full tk) (new_tickets_of w snap) (positions snap)
                 ([], []) w = (Inr (c, f), w1)"
  shows "\<exists>rep w'. enforce_aggregate_risk tk th n bm w = (Inr rep, w') \<and>
      new_tickets_detected rep = new_tickets_of w snap \<and> closed_rep rep = c \<and> failed_rep rep = f \<and>
      attempts_before rep = effective_attempts tk bm w \<and>
      attempts_after rep = effective_attempts tk bm w + int (length (new_tickets_of w snap)) \<and>
      block_attempts (limits_file w') = Some (attempts_after rep) \<and>
      baseline_tickets (limits_file w') = baseline_tickets (limits_file w) \<and>
      last_attempt_at (limits_file w') =
        (if new_tickets_of w snap \<noteq> [] then Some (now tk)
         else if decayed (now tk) bm (limits_file w) then None
         else last_attempt_at (limits_file w)) \<and>
      risk_block_active (limits_file w') = Some (risk_block_active_after rep) \<and>
      risk_block_active_after rep =
        (flag_of (limits_file w) \<or> fst (kill_status (now tk) w) \<or> n \<le> attempts_after rep \<or>
         kill_switch_active_after rep) \<and>
      kill_switch_active_after rep = fst (kill_status (now tk) w') \<and>
      kill_switch_until_after rep = snd (kill_status (now tk) w') \<and>
      kill_switch_armed_now rep =
        (n \<le> attempts_after rep \<and> \<not> fst (kill_status (now tk) w) \<and> \<not> arm_raises tk) \<and>
      effects w' = effects w1 @
        (if n \<le> attempts_after rep \<and> \<not> fst (kill_status (now tk) w)
         then [ArmCall (now tk + minutes (max 1 bm))] else []) \<and>
      kill_until w' =
        (if kill_switch_armed_now rep
         then (case kill_until w of
                 None \<Rightarrow> Some (now tk + minutes (max 1 bm))
               | Some u \<Rightarrow> if u < now tk + minutes (max 1 bm)
                           then Some (now tk + minutes (max 1 bm)) else Some u)
         else kill_until w)"
proof -
  let ?st = "limits_file w"
  let ?dec = "decayed (now tk) bm ?st"
  let ?st1 = "if ?dec then ?st\<lparr>block_attempts := Some 0, last_attempt_at := None\<rparr> else ?st"
  let ?kab = "fst (kill_status (now tk) w)"
  let ?rb = "flag_of ?st \<or> ?kab"
  let ?a = "effective_attempts tk bm w"
  let ?tc = "remdups (map ticket (positions snap))"
  let ?rep0 = "\<lparr>rep_now_utc = now tk, rep_threshold_pct = th,
                 rep_total_risk_pct = total_risk_pct snap, rep_positions = length ?tc,
                 rep_baseline_tickets = baseline_of ?st, new_tickets_detected = [],
                 closed_rep = [], failed_rep = [], attempts_before = ?a, attempts_after = ?a,
                 risk_block_active_before = ?rb, risk_block_active_after = ?rb,
                 kill_switch_active_before = ?kab, kill_switch_active_after = ?kab,
                 kill_switch_until_before = snd (kill_status (now tk) w),
                 kill_switch_until_after = snd (kill_status (now tk) w),
                 kill_switch_armed_now = False, rep_block_minutes = bm\<rparr>"
  have eq: "enforce_aggregate_risk tk th n bm w =
      exceeded_branch tk n bm snap (baseline_of ?st) ?tc ?a ?rb ?kab ?st1 ?rep0 w"
    using sn bl ex
    by (simp add: enforce_aggregate_risk_def Let_def load_state_def effective_attempts_def)
  have new: "new_tickets_of w snap = filter (\<lambda>t. t \<notin> set (baseline_of ?st)) ?tc"
    by (simp add: new_tickets_of_def)
  have na: "\<not> kill_switch_armed_now ?rep0" by simp
  from exceeded_branch_result [where n = n and a = ?a and rb = ?rb and st = ?st1 and bm = bm,
      OF cl new na refl refl refl]
  obtain rep' w' where
    r: "exceeded_branch tk n bm snap (baseline_of ?st) ?tc ?a ?rb ?kab ?st1 ?rep0 w = (Inr rep', w')"
    and p: "new_tickets_detected rep' = new_tickets_of w snap" "closed_rep rep' = c"
      "failed_rep rep' = f" "attempts_before rep' = attempts_before ?rep0"
      "attempts_after rep' = ?a + int (length (new_tickets_of w snap))"
      "block_attempts (limits_file w') = Some (?a + int (length (new_tickets_of w snap)))"
      "baseline_tickets (limits_file w') = baseline_tickets ?st1"
      "last_attempt_at (limits_file w') =
         (if new_tickets_of w snap \<noteq> [] then Some (now tk) else last_attempt_at ?st1)"
      "risk_block_active (limits_file w') = Some (risk_block_active_after rep')"
      "risk_block_active_after rep' =
         (?rb \<or> n \<le> ?a + int (length (new_tickets_of w snap)) \<or> kill_switch_active_after rep')"
      "kill_switch_active_after rep' = fst (kill_status (now tk) w')"
      "kill_switch_until_after rep' = snd (kill_status (now tk) w')"
      "kill_switch_armed_now rep' =
         (n \<le> ?a + int (length (new_tickets_of w snap)) \<and> \<not> ?kab \<and> \<not> arm_raises tk)"
      "effects w' = effects w1 @
         (if n \<le> ?a + int (length (new_tickets_of w snap)) \<and> \<not> ?kab
          then [ArmCall (now tk + minutes (max 1 bm))] else [])"
      "kill_until w' =
        (if n \<le> ?a + int (length (new_tickets_of w snap)) \<and> \<not> ?kab \<and> \<not> arm_raises tk
         then (case kill_until w of
                 None \<Rightarrow> Some (now tk + minutes (max 1 bm))
               | Some u \<Rightarrow> if u < now tk + minutes (max 1 bm)
                           then Some (now tk + minutes (max 1 bm)) else Some u)
         else kill_until w)"
    by blast
  have b1: "baseline_tickets ?st1 = baseline_tickets ?st" by simp
  have l1: "last_attempt_at ?st1 = (if ?dec then None else last_attempt_at ?st)" by simp
  have ab: "attempts_before ?rep0 = ?a" by simp
  show ?thesis
    apply (rule exI [of _ rep'], rule exI [of _ w'])
    unfolding eq r p b1 l1 ab
    by auto
qed



lemma enforce_first_run:
  assumes sn: "reader_snapshot tk = Some snap"
      and bl: "baseline_of (limits_file w) = []"
  shows "\<exists>rep w'. enforce_aggregate_risk tk th n bm w = (Inr rep, w') \<and>
      effects w' = effects w \<and> kill_until w' = kill_until w \<and>
      new_tickets_detected rep = [] \<and> closed_rep rep = [] \<and> failed_rep rep = [] \<and>
      attempts_before rep = effective_attempts tk bm w \<and>
      attempts_after rep = effective_attempts tk bm w \<and>
      block_attempts (limits_file w') = Some (attempts_after rep) \<and>
      baseline_tickets (limits_file w') = Some (sort (remdups (map ticket (positions snap)))) \<and>
      last_attempt_at (limits_file w') =
        (if decayed (now tk) bm (limits_file w) then None else last_attempt_at (limits_file w)) \<and>
      risk_block_active (limits_file w') =
        Some (flag_of (limits_file w) \<or> fst (kill_status (now tk) w))"
  using sn bl
  by (simp add: enforce_aggregate_risk_def Let_def first_run_branch_def load_state_def
        save_state_def effective_attempts_def)

lemma enforce_within:
  assumes sn: "reader_snapshot tk = Some snap"
      and bl: "baseline_of (limits_file w) \<noteq> []"
      and ok: "total_risk_pct snap \<le> th + 1 / 1000000000"
  shows "\<exists>rep w'. enforce_aggregate_risk tk th n bm w = (Inr rep, w') \<and>
      effects w' = effects w \<and> kill_until w' = kill_until w \<and>
      new_tickets_detected rep = [] \<and> closed_rep rep = [] \<and> failed_rep rep = [] \<and>
      attempts_before rep = effective_attempts tk bm w \<and>
      attempts_after rep =
        (if flag_of (limits_file w) \<and> \<not> fst (kill_status (now tk) w) then 0
         else effective_attempts tk bm w) \<and>
      block_attempts (limits_file w') = Some (attempts_after rep) \<and>
      baseline_tickets (limits_file w') = Some (sort (remdups (map ticket (positions snap)))) \<and>
      last_attempt_at (limits_file w') =
        (if (flag_of (limits_file w) \<and> \<not> fst (kill_status (now tk) w)) \<or>
            decayed (now tk) bm (limits_file w)
         then None else last_attempt_at (limits_file w)) \<and>
      risk_block_active (limits_file w') = Some (fst (kill_status (now tk) w))"
  using sn bl ok
  by (auto simp add: enforce_aggregate_risk_def Let_def within_threshold_branch_def load_state_def
        save_state_def effective_attempts_def)

lemma enforce_exceeded_raises:
  assumes sn: "reader_snapshot tk = Some snap"
      and bl: "baseline_of (limits_file w) \<noteq> []"
      and ex: "\<not> total_risk_pct snap \<le> th + 1 / 1000000000"
      and cl: "close_new_tickets (close_position_full tk) (new_tickets_of w snap) (positions snap)
                 ([], []) w = (Inl e, w1)"
  shows "enforce_aggregate_risk tk th n bm w = (Inl e, w1)"
proof -
  have cl': "close_new_tickets (close_position_full tk)
      (filter (\<lambda>t. t \<notin> set (baseline_of (limits_file w))) (remdups (map ticket (positions snap))))
      (positions snap) ([], []) w = (Inl e, w1)"
    using cl by (simp add: new_tickets_of_def)
  show ?thesis
    using sn bl ex
    by (simp add: enforce_aggregate_risk_def Let_def load_state_def exceeded_branch_def cl')
qed



lemma close_loop_result:
  assumes "never_raises tk snap"
  shows "\<exists>c f w1. close_new_tickets (close_position_full tk) new (positions snap) ([], []) w
           = (Inr (c, f), w1)"
proof -
  from close_new_tickets_returns [of "close_position_full tk" "positions snap" new "([], [])" w] assms
  obtain c f where "fst (close_new_tickets (close_position_full tk) new (positions snap) ([], []) w)
      = Inr (c, f)"
    by (auto simp: never_raises_def)
  then show ?thesis
    by (cases "close_new_tickets (close_position_full tk) new (positions snap) ([], []) w") auto
qed


lemmas example_defs = example_state_def example_world_def example_tick_def example_position_def
  two_positions_def

lemmas enforce_defs = enforce_aggregate_risk_def exceeded_branch_def within_threshold_branch_def
  first_run_branch_def load_state_def save_state_def set_kill_until_def kill_status_def
  baseline_of_def attempts_of_def flag_of_def decayed_def minutes_def Let_def

section \<open>Arming the kill switch fails\<close>

text \<open>
  Claim C10, amended. On a tick that exceeds the threshold, where the attempts
  reach \<open>max_block_attempts\<close>, the kill switch is not active and
  \<^verbatim>\<open>set_kill_until\<close> raises, the enforcer returns its report, persists
  \<open>risk_block_active = true\<close>, and reports the kill switch as read again after
  the failed call: not armed now, not active, and with the \<open>until\<close> that is
  stored (an expired one if there is one, none otherwise). The arming call is
  the last call made.
\<close>

theorem arming_failure_keeps_logical_block:
  assumes sn: "reader_snapshot tk = Some snap"
      and bl: "baseline_of (limits_file w) \<noteq> []"
      and ex: "\<not> total_risk_pct snap \<le> th + 1 / 1000000000"
      and nr: "never_raises tk snap"
      and reach: "n \<le> effective_attempts tk bm w + int (length (new_tickets_of w snap))"
      and inactive: "\<not> fst (kill_status (now tk) w)"
      and raises: "arm_raises tk"
  shows "\<exists>rep w'. enforce_aggregate_risk tk th n bm w = (Inr rep, w') \<and>
      risk_block_active (limits_file w') = Some True \<and> risk_block_active_after rep \<and>
      \<not> kill_switch_armed_now rep \<and> \<not> kill_switch_active_after rep \<and>
      kill_switch_until_after rep = kill_until w \<and> kill_until w' = kill_until w \<and>
      last (effects w') = ArmCall (now tk + minutes (max 1 bm))"
proof -
  from close_loop_result [OF nr] obtain c f w1 where
    cl: "close_new_tickets (close_position_full tk) (new_tickets_of w snap) (positions snap)
           ([], []) w = (Inr (c, f), w1)"
    by blast
  from enforce_exceeded [OF sn bl ex cl, of n bm] obtain rep w' where
    r: "enforce_aggregate_risk tk th n bm w = (Inr rep, w')"
    and p: "attempts_after rep = effective_attempts tk bm w + int (length (new_tickets_of w snap))"
      "risk_block_active (limits_file w') = Some (risk_block_active_after rep)"
      "risk_block_active_after rep =
        (flag_of (limits_file w) \<or> fst (kill_status (now tk) w) \<or> n \<le> attempts_after rep \<or>
         kill_switch_active_after rep)"
      "kill_switch_active_after rep = fst (kill_status (now tk) w')"
      "kill_switch_until_after rep = snd (kill_status (now tk) w')"
      "kill_switch_armed_now rep =
        (n \<le> attempts_after rep \<and> \<not> fst (kill_status (now tk) w) \<and> \<not> arm_raises tk)"
      "effects w' = effects w1 @
        (if n \<le> attempts_after rep \<and> \<not> fst (kill_status (now tk) w)
         then [ArmCall (now tk + minutes (max 1 bm))] else [])"
      "kill_until w' =
        (if kill_switch_armed_now rep
         then (case kill_until w of
                 None \<Rightarrow> Some (now tk + minutes (max 1 bm))
               | Some u \<Rightarrow> if u < now tk + minutes (max 1 bm)
                           then Some (now tk + minutes (max 1 bm)) else Some u)
         else kill_until w)"
    by blast
  have na: "\<not> kill_switch_armed_now rep" using p(6) raises by simp
  have ku: "kill_until w' = kill_until w" using p(8) na by simp
  have ks: "kill_status (now tk) w' = kill_status (now tk) w" by (simp add: kill_status_def ku)
  have "snd (kill_status (now tk) w) = kill_until w"
    by (simp add: kill_status_def split: option.splits)
  with r p na ku ks reach inactive show ?thesis by auto
qed


text \<open>
  Claim C10 as stated fails where an expired \<open>until\<close> is still stored: the
  values set in the handler (inactive, no \<open>until\<close>) are replaced by the status
  read at lines 184-187, and the report carries the stored instant 500.
\<close>

theorem arming_failure_reports_stored_until:
  "arm_raises ((example_tick 1000 7 two_positions)\<lparr>arm_raises := True\<rparr>) \<and>
   enforce_aggregate_risk ((example_tick 1000 7 two_positions)\<lparr>arm_raises := True\<rparr>) 5 1 60
     (example_world (example_state [1] 0 None False) (Some 500)) =
   (Inr \<lparr>rep_now_utc = 1000, rep_threshold_pct = 5, rep_total_risk_pct = 7, rep_positions = 2,
          rep_baseline_tickets = [1], new_tickets_detected = [2],
          closed_rep = [(2, ''EURUSD'')], failed_rep = [],
          attempts_before = 0, attempts_after = 1,
          risk_block_active_before = False, risk_block_active_after = True,
          kill_switch_active_before = False, kill_switch_active_after = False,
          kill_switch_until_before = Some 500, kill_switch_until_after = Some 500,
          kill_switch_armed_now = False, rep_block_minutes = 60\<rparr>,
    \<lparr>limits_file = example_state [1] 1 (Some 1000) True, kill_until = Some 500,
      effects = [CloseCall 2, ArmCall 3600001000]\<rparr>)"
  by (simp add: enforce_defs example_defs)

theorem arming_failure_keeps_logical_block_witness:
  "reader_snapshot ((example_tick 1000 7 two_positions)\<lparr>arm_raises := True\<rparr>) =
     Some \<lparr>total_risk_pct = 7, positions = two_positions\<rparr> \<and>
   baseline_of (limits_file (example_world (example_state [1] 0 None False) None)) \<noteq> [] \<and>
   \<not> total_risk_pct \<lparr>total_risk_pct = 7, positions = two_positions\<rparr> \<le> 5 + 1 / 1000000000 \<and>
   never_raises ((example_tick 1000 7 two_positions)\<lparr>arm_raises := True\<rparr>)
     \<lparr>total_risk_pct = 7, positions = two_positions\<rparr> \<and>
   1 \<le> effective_attempts ((example_tick 1000 7 two_positions)\<lparr>arm_raises := True\<rparr>) 60
          (example_world (example_state [1] 0 None False) None) +
        int (length (new_tickets_of (example_world (example_state [1] 0 None False) None)
                       \<lparr>total_risk_pct = 7, positions = two_positions\<rparr>)) \<and>
   \<not> fst (kill_status (now ((example_tick 1000 7 two_positions)\<lparr>arm_raises := True\<rparr>))
            (example_world (example_state [1] 0 None False) None)) \<and>
   arm_raises ((example_tick 1000 7 two_positions)\<lparr>arm_raises := True\<rparr>) \<and>
   (\<exists>rep w'. enforce_aggregate_risk ((example_tick 1000 7 two_positions)\<lparr>arm_raises := True\<rparr>) 5 1 60
        (example_world (example_state [1] 0 None False) None) = (Inr rep, w') \<and>
      risk_block_active (limits_file w') = Some True \<and> \<not> kill_switch_active_after rep \<and>
      kill_switch_until_after rep = None \<and> kill_until w' = None)"
proof -
  let ?tk = "(example_tick 1000 7 two_positions)\<lparr>arm_raises := True\<rparr>"
  let ?w = "example_world (example_state [1] 0 None False) None"
  let ?snap = "\<lparr>total_risk_pct = 7, positions = two_positions\<rparr>"
  have h1: "reader_snapshot ?tk = Some ?snap" by (simp add: example_defs)
  have h2: "baseline_of (limits_file ?w) \<noteq> []" by (simp add: example_defs baseline_of_def)
  have h3: "\<not> total_risk_pct ?snap \<le> 5 + 1 / 1000000000" by simp
  have h4: "never_raises ?tk ?snap" by (simp add: never_raises_def example_defs)
  have h5: "1 \<le> effective_attempts ?tk 60 ?w + int (length (new_tickets_of ?w ?snap))"
    by (simp add: effective_attempts_def new_tickets_of_def decayed_def attempts_of_def
          baseline_of_def example_defs)
  have h6: "\<not> fst (kill_status (now ?tk) ?w)" by (simp add: kill_status_def example_defs)
  have h7: "arm_raises ?tk" by simp
  have k: "kill_until ?w = None" by (simp add: example_defs)
  from arming_failure_keeps_logical_block [OF h1 h2 h3 h4 h5 h6 h7]
  show ?thesis using h1 h2 h3 h4 h5 h6 h7 unfolding k by blast
qed

section \<open>Calls with the risk within the threshold\<close>

lemma enforce_at_or_below:
  assumes sn: "reader_snapshot tk = Some snap"
      and le: "total_risk_pct snap \<le> th + 1 / 1000000000"
  shows "\<exists>rep w'. enforce_aggregate_risk tk th n bm w = (Inr rep, w') \<and>
      effects w' = effects w \<and> kill_until w' = kill_until w \<and>
      new_tickets_detected rep = [] \<and> closed_rep rep = [] \<and> failed_rep rep = [] \<and>
      attempts_after rep = attempts_of (limits_file w') \<and>
      attempts_of (limits_file w') =
        (if resets_attempts tk bm w then 0 else attempts_of (limits_file w))"
proof (cases "baseline_of (limits_file w) = []")
  case True
  from enforce_first_run [OF sn True, of th n bm] True show ?thesis
    by (auto simp: attempts_of_def effective_attempts_def resets_attempts_def)
next
  case False
  from enforce_within [OF sn False le, of n bm] False show ?thesis
    by (auto simp: attempts_of_def effective_attempts_def resets_attempts_def)
qed

text \<open>
  Claim C5, amended. For every state and every snapshot whose total risk is at
  or below the threshold, two calls in succession with that snapshot both
  return a report, make no call to the trading engine or the kill switch,
  report no new ticket, no closure and no failure, and leave the attempts
  counter exactly as they found it, except that a call sets it to 0 when the
  stored attempts are stale (line 85) or when a block is recorded, the kill
  switch is not active and the baseline is not empty (the clean reset of line
  126). The counter is never raised.
\<close>

theorem within_threshold_calls_close_nothing:
  assumes "reader_snapshot tk1 = Some snap" and "reader_snapshot tk2 = Some snap"
      and "total_risk_pct snap \<le> th"
  shows "\<exists>rep1 w1 rep2 w2.
      enforce_aggregate_risk tk1 th n bm w = (Inr rep1, w1) \<and>
      enforce_aggregate_risk tk2 th n bm w1 = (Inr rep2, w2) \<and>
      effects w1 = effects w \<and> effects w2 = effects w \<and>
      kill_until w1 = kill_until w \<and> kill_until w2 = kill_until w \<and>
      new_tickets_detected rep1 = [] \<and> closed_rep rep1 = [] \<and> failed_rep rep1 = [] \<and>
      new_tickets_detected rep2 = [] \<and> closed_rep rep2 = [] \<and> failed_rep rep2 = [] \<and>
      attempts_after rep1 = attempts_of (limits_file w1) \<and>
      attempts_after rep2 = attempts_of (limits_file w2) \<and>
      attempts_of (limits_file w1) =
        (if resets_attempts tk1 bm w then 0 else attempts_of (limits_file w)) \<and>
      attempts_of (limits_file w2) =
        (if resets_attempts tk2 bm w1 then 0 else attempts_of (limits_file w1))"
proof -
  have le: "total_risk_pct snap \<le> th + 1 / 1000000000" using assms(3) by simp
  from enforce_at_or_below [OF assms(1) le, of n bm w] obtain rep1 w1 where
    a: "enforce_aggregate_risk tk1 th n bm w = (Inr rep1, w1)" "effects w1 = effects w"
       "kill_until w1 = kill_until w"
       "new_tickets_detected rep1 = []" "closed_rep rep1 = []" "failed_rep rep1 = []"
       "attempts_after rep1 = attempts_of (limits_file w1)"
       "attempts_of (limits_file w1) =
          (if resets_attempts tk1 bm w then 0 else attempts_of (limits_file w))"
    by blast
  from enforce_at_or_below [OF assms(2) le, of n bm w1] obtain rep2 w2 where
    b: "enforce_aggregate_risk tk2 th n bm w1 = (Inr rep2, w2)" "effects w2 = effects w1"
       "kill_until w2 = kill_until w1"
       "new_tickets_detected rep2 = []" "closed_rep rep2 = []" "failed_rep rep2 = []"
       "attempts_after rep2 = attempts_of (limits_file w2)"
       "attempts_of (limits_file w2) =
          (if resets_attempts tk2 bm w1 then 0 else attempts_of (limits_file w1))"
    by blast
  show ?thesis
    apply (rule exI [of _ rep1], rule exI [of _ w1], rule exI [of _ rep2], rule exI [of _ w2])
    using a b by simp
qed

text \<open>
  Claim C5 as stated fails in both resets. With a risk block recorded, 3
  attempts and no active kill switch, a call with the risk at 3 against a
  threshold of 5 changes the attempts from 3 to 0 (lines 126-129); with 2
  attempts made two hours ago and \<open>block_minutes = 60\<close>, such a call changes
  them from 2 to 0 (lines 83-88).
\<close>

theorem within_threshold_call_resets_attempts:
  "total_risk_pct \<lparr>total_risk_pct = 3, positions = [example_position 1 ''EURUSD'' 0]\<rparr> \<le> 5 \<and>
   attempts_of (limits_file (example_world (example_state [1] 3 (Some 0) True) None)) = 3 \<and>
   attempts_of (limits_file (snd (enforce_aggregate_risk
       (example_tick 1000 3 [example_position 1 ''EURUSD'' 0]) 5 3 60
       (example_world (example_state [1] 3 (Some 0) True) None)))) = 0 \<and>
   attempts_of (limits_file (example_world (example_state [1] 2 (Some 0) False) None)) = 2 \<and>
   attempts_of (limits_file (snd (enforce_aggregate_risk
       (example_tick 7200000000 3 [example_position 1 ''EURUSD'' 0]) 5 3 60
       (example_world (example_state [1] 2 (Some 0) False) None)))) = 0"
  by (simp add: enforce_defs example_defs)

text \<open>
  One attempt made a millisecond ago, no block recorded: neither reset
  applies, and both calls leave the state, with the counter at 1, as it was.
\<close>

lemma within_threshold_example:
  "enforce_aggregate_risk (example_tick 1000 3 [example_position 1 ''EURUSD'' 0]) 5 3 60
     (example_world (example_state [1] 1 (Some 0) False) None) =
   (Inr \<lparr>rep_now_utc = 1000, rep_threshold_pct = 5, rep_total_risk_pct = 3, rep_positions = 1,
          rep_baseline_tickets = [1], new_tickets_detected = [], closed_rep = [], failed_rep = [],
          attempts_before = 1, attempts_after = 1,
          risk_block_active_before = False, risk_block_active_after = False,
          kill_switch_active_before = False, kill_switch_active_after = False,
          kill_switch_until_before = None, kill_switch_until_after = None,
          kill_switch_armed_now = False, rep_block_minutes = 60\<rparr>,
    example_world (example_state [1] 1 (Some 0) False) None)"
  by (simp add: enforce_defs example_defs)

theorem within_threshold_calls_close_nothing_witness:
  "reader_snapshot (example_tick 1000 3 [example_position 1 ''EURUSD'' 0]) =
     Some \<lparr>total_risk_pct = 3, positions = [example_position 1 ''EURUSD'' 0]\<rparr> \<and>
   reader_snapshot (example_tick 2000 3 [example_position 1 ''EURUSD'' 0]) =
     Some \<lparr>total_risk_pct = 3, positions = [example_position 1 ''EURUSD'' 0]\<rparr> \<and>
   total_risk_pct \<lparr>total_risk_pct = 3, positions = [example_position 1 ''EURUSD'' 0]\<rparr> \<le> 5 \<and>
   attempts_of (limits_file (example_world (example_state [1] 1 (Some 0) False) None)) = 1 \<and>
   (\<exists>rep1 w1 rep2 w2.
      enforce_aggregate_risk (example_tick 1000 3 [example_position 1 ''EURUSD'' 0]) 5 3 60
        (example_world (example_state [1] 1 (Some 0) False) None) = (Inr rep1, w1) \<and>
      enforce_aggregate_risk (example_tick 2000 3 [example_position 1 ''EURUSD'' 0]) 5 3 60 w1
        = (Inr rep2, w2) \<and>
      effects w1 = [] \<and> effects w2 = [] \<and> closed_rep rep1 = [] \<and> closed_rep rep2 = [] \<and>
      attempts_of (limits_file w1) = 1 \<and> attempts_of (limits_file w2) = 1 \<and>
      attempts_after rep1 = 1 \<and> attempts_after rep2 = 1)"
proof -
  let ?snap = "\<lparr>total_risk_pct = 3, positions = [example_position 1 ''EURUSD'' 0]\<rparr>"
  let ?tk1 = "example_tick 1000 3 [example_position 1 ''EURUSD'' 0]"
  let ?tk2 = "example_tick 2000 3 [example_position 1 ''EURUSD'' 0]"
  let ?w = "example_world (example_state [1] 1 (Some 0) False) None"
  have h1: "reader_snapshot ?tk1 = Some ?snap" by (simp add: example_defs)
  have h2: "reader_snapshot ?tk2 = Some ?snap" by (simp add: example_defs)
  have h3: "total_risk_pct ?snap \<le> 5" by simp
  have a0: "attempts_of (limits_file ?w) = 1" by (simp add: attempts_of_def example_defs)
  have e: "effects ?w = []" by (simp add: example_defs)
  have n1: "\<not> resets_attempts ?tk1 60 ?w"
    by (simp add: resets_attempts_def decayed_def attempts_of_def flag_of_def example_defs)
  have n2: "\<not> resets_attempts ?tk2 60 ?w"
    by (simp add: resets_attempts_def decayed_def attempts_of_def flag_of_def example_defs)
  from within_threshold_calls_close_nothing [OF h1 h2 h3, of 3 60 ?w]
  obtain rep1 w1 rep2 w2 where
    r: "enforce_aggregate_risk ?tk1 5 3 60 ?w = (Inr rep1, w1)"
       "enforce_aggregate_risk ?tk2 5 3 60 w1 = (Inr rep2, w2)"
       "effects w1 = effects ?w" "effects w2 = effects ?w"
       "closed_rep rep1 = []" "closed_rep rep2 = []"
       "attempts_after rep1 = attempts_of (limits_file w1)"
       "attempts_after rep2 = attempts_of (limits_file w2)"
       "attempts_of (limits_file w1) =
          (if resets_attempts ?tk1 60 ?w then 0 else attempts_of (limits_file ?w))"
       "attempts_of (limits_file w2) =
          (if resets_attempts ?tk2 60 w1 then 0 else attempts_of (limits_file w1))"
    by blast
  have w1: "w1 = ?w" using r(1) within_threshold_example by simp
  have "attempts_of (limits_file w1) = 1" using r(9) n1 a0 by simp
  moreover have "attempts_of (limits_file w2) = 1" using r(10) n2 a0 w1 by simp
  ultimately show ?thesis using h1 h2 h3 a0 r e by auto
qed

section \<open>Decay of the attempts\<close>

text \<open>
  Claim C6, amended. For every persisted state with attempts above 0 and a
  last attempt recorded at least \<open>max 1 block_minutes\<close> minutes before the
  tick, the next call that returns starts counting from 0: the report's
  attempts before are 0, the persisted attempts are the number of new tickets
  that this very call detects, and the last attempt is cleared unless the call
  detects new tickets (then it is the instant of the call).
\<close>

theorem stale_attempts_are_dropped:
  assumes "0 < attempts_of (limits_file w)"
      and "last_attempt_at (limits_file w) = Some l"
      and "max 1 bm * 60 * 1000000 \<le> now tk - l"
      and sn: "reader_snapshot tk = Some snap"
      and nr: "never_raises tk snap"
  shows "\<exists>rep w'. enforce_aggregate_risk tk th n bm w = (Inr rep, w') \<and>
      attempts_before rep = 0 \<and>
      attempts_of (limits_file w') = int (length (new_tickets_detected rep)) \<and>
      last_attempt_at (limits_file w') =
        (if new_tickets_detected rep = [] then None else Some (now tk))"
proof -
  have dec: "decayed (now tk) bm (limits_file w)"
    using assms(1-3) by (simp add: decayed_def)
  then have ea: "effective_attempts tk bm w = 0" by (simp add: effective_attempts_def)
  consider (first) "baseline_of (limits_file w) = []"
    | (within) "baseline_of (limits_file w) \<noteq> []" "total_risk_pct snap \<le> th + 1 / 1000000000"
    | (exceeded) "baseline_of (limits_file w) \<noteq> []" "\<not> total_risk_pct snap \<le> th + 1 / 1000000000"
    by blast
  then show ?thesis
  proof cases
    case first
    from enforce_first_run [OF sn first, of th n bm] show ?thesis
      using dec ea by (auto simp: attempts_of_def)
  next
    case within
    from enforce_within [OF sn within, of n bm] show ?thesis
      using dec ea by (auto simp: attempts_of_def)
  next
    case exceeded
    from close_loop_result [OF nr] obtain c f w1 where
      cl: "close_new_tickets (close_position_full tk) (new_tickets_of w snap) (positions snap)
             ([], []) w = (Inr (c, f), w1)"
      by blast
    from enforce_exceeded [OF sn exceeded cl, of n bm] obtain rep w' where
      r: "enforce_aggregate_risk tk th n bm w = (Inr rep, w')"
      and p: "new_tickets_detected rep = new_tickets_of w snap"
        "attempts_before rep = effective_attempts tk bm w"
        "attempts_after rep = effective_attempts tk bm w + int (length (new_tickets_of w snap))"
        "block_attempts (limits_file w') = Some (attempts_after rep)"
        "last_attempt_at (limits_file w') =
          (if new_tickets_of w snap \<noteq> [] then Some (now tk)
           else if decayed (now tk) bm (limits_file w) then None
           else last_attempt_at (limits_file w))"
      by blast
    have "attempts_before rep = 0 \<and>
      attempts_of (limits_file w') = int (length (new_tickets_detected rep)) \<and>
      last_attempt_at (limits_file w') =
        (if new_tickets_detected rep = [] then None else Some (now tk))"
      using p dec ea by (simp add: attempts_of_def)
    with r show ?thesis by blast
  qed
qed

text \<open>
  Claim C6 as stated fails twice. With \<open>block_minutes = 0\<close> and one attempt
  made 30 seconds ago, the idle time is at least \<open>block_minutes\<close>, and the
  call leaves the state as it was: the bound is one minute at least. With
  \<open>block_minutes = 60\<close> and two attempts made two hours ago, a call that
  detects one new ticket leaves 1 attempt and the last attempt set.
\<close>

theorem stale_attempts_not_reset:
  "0 < attempts_of (limits_file (example_world (example_state [1] 1 (Some 0) False) None)) \<and>
   minutes 0 \<le> now (example_tick 30000000 3 [example_position 1 ''EURUSD'' 0]) - 0 \<and>
   limits_file (snd (enforce_aggregate_risk
       (example_tick 30000000 3 [example_position 1 ''EURUSD'' 0]) 5 3 0
       (example_world (example_state [1] 1 (Some 0) False) None)))
     = example_state [1] 1 (Some 0) False \<and>
   0 < attempts_of (limits_file (example_world (example_state [1] 2 (Some 0) False) None)) \<and>
   minutes 60 \<le> now (example_tick 7200000000 7 two_positions) - 0 \<and>
   limits_file (snd (enforce_aggregate_risk (example_tick 7200000000 7 two_positions) 5 3 60
       (example_world (example_state [1] 2 (Some 0) False) None)))
     = example_state [1] 1 (Some 7200000000) False"
  by (simp add: enforce_defs example_defs)

theorem stale_attempts_are_dropped_witness:
  "0 < attempts_of (limits_file (example_world (example_state [1] 2 (Some 0) False) None)) \<and>
   last_attempt_at (limits_file (example_world (example_state [1] 2 (Some 0) False) None)) = Some 0 \<and>
   max 1 60 * 60 * 1000000 \<le> now (example_tick 7200000000 3 two_positions) - 0 \<and>
   reader_snapshot (example_tick 7200000000 3 two_positions) =
     Some \<lparr>total_risk_pct = 3, positions = two_positions\<rparr> \<and>
   never_raises (example_tick 7200000000 3 two_positions)
     \<lparr>total_risk_pct = 3, positions = two_positions\<rparr> \<and>
   (\<exists>rep w'. enforce_aggregate_risk (example_tick 7200000000 3 two_positions) 5 3 60
        (example_world (example_state [1] 2 (Some 0) False) None) = (Inr rep, w') \<and>
      attempts_before rep = 0 \<and> attempts_of (limits_file w') = 0 \<and>
      last_attempt_at (limits_file w') = None)"
proof -
  let ?w = "example_world (example_state [1] 2 (Some 0) False) None"
  let ?tk = "example_tick 7200000000 3 two_positions"
  let ?snap = "\<lparr>total_risk_pct = 3, positions = two_positions\<rparr>"
  have h1: "0 < attempts_of (limits_file ?w)" by (simp add: attempts_of_def example_defs)
  have h2: "last_attempt_at (limits_file ?w) = Some 0" by (simp add: example_defs)
  have h3: "max 1 60 * 60 * 1000000 \<le> now ?tk - 0" by (simp add: example_defs)
  have h4: "reader_snapshot ?tk = Some ?snap" by (simp add: example_defs)
  have h5: "never_raises ?tk ?snap" by (simp add: never_raises_def example_defs)
  from stale_attempts_are_dropped [OF h1 h2 h3 h4 h5, of 5 3]
  obtain rep w' where
    r: "enforce_aggregate_risk ?tk 5 3 60 ?w = (Inr rep, w')" "attempts_before rep = 0"
       "attempts_of (limits_file w') = int (length (new_tickets_detected rep))"
       "last_attempt_at (limits_file w') =
          (if new_tickets_detected rep = [] then None else Some (now ?tk))"
    by blast
  have "new_tickets_detected rep = []"
    using r(1) by (auto simp: enforce_defs example_defs)
  with r h1 h2 h3 h4 h5 show ?thesis by auto
qed

section \<open>Attempt accounting\<close>







section \<open>Tickets of the first observation\<close>

lemma count_close_calls:
  "t \<notin> set ts \<Longrightarrow> count_list (es @ map CloseCall ts @ as) (CloseCall t) =
     count_list es (CloseCall t) + count_list as (CloseCall t)"
  by (induction ts) auto

lemma enforce_summary:
  assumes sn: "reader_snapshot tk = Some snap"
      and nt: "t \<notin> set (new_tickets_of w snap)"
  shows "count_list (effects (snd (enforce_aggregate_risk tk th n bm w))) (CloseCall t) =
           count_list (effects w) (CloseCall t) \<and>
         (\<forall>rep. fst (enforce_aggregate_risk tk th n bm w) = Inr rep \<longrightarrow>
            set (new_tickets_detected rep) \<subseteq> set (new_tickets_of w snap)) \<and>
         (baseline_of (limits_file (snd (enforce_aggregate_risk tk th n bm w))) =
            baseline_of (limits_file w) \<or>
          baseline_of (limits_file (snd (enforce_aggregate_risk tk th n bm w))) =
            sort (remdups (map ticket (positions snap))))"
proof -
  obtain r w1 where cl:
    "close_new_tickets (close_position_full tk) (new_tickets_of w snap) (positions snap) ([], []) w
       = (r, w1)"
    by (metis surj_pair)
  from close_new_tickets_world [OF cl] obtain ts where
    w1: "limits_file w1 = limits_file w" "effects w1 = effects w @ map CloseCall ts"
        "set ts \<subseteq> set (new_tickets_of w snap)"
    by auto
  have tn: "t \<notin> set ts" using nt w1(3) by auto
  have c1: "count_list (effects w1) (CloseCall t) = count_list (effects w) (CloseCall t)"
    using count_close_calls [OF tn, of "effects w" "[]"] w1(2) by simp
  consider (first) "baseline_of (limits_file w) = []"
    | (within) "baseline_of (limits_file w) \<noteq> []" "total_risk_pct snap \<le> th + 1 / 1000000000"
    | (raised) e where "baseline_of (limits_file w) \<noteq> []"
        "\<not> total_risk_pct snap \<le> th + 1 / 1000000000" "r = Inl e"
    | (exceeded) c f where "baseline_of (limits_file w) \<noteq> []"
        "\<not> total_risk_pct snap \<le> th + 1 / 1000000000" "r = Inr (c, f)"
    by (cases r) auto
  then show ?thesis
  proof cases
    case first
    from enforce_first_run [OF sn first, of th n bm] show ?thesis
      by (auto simp: baseline_of_def)
  next
    case within
    from enforce_within [OF sn within, of n bm] show ?thesis
      by (auto simp: baseline_of_def)
  next
    case raised
    from enforce_exceeded_raises [OF sn raised(1,2) cl [unfolded raised(3)], of n bm]
    show ?thesis using c1 w1(1) by simp
  next
    case exceeded
    from enforce_exceeded [OF sn exceeded(1,2) cl [unfolded exceeded(3)], of n bm]
    obtain rep w' where
      r: "enforce_aggregate_risk tk th n bm w = (Inr rep, w')"
      and p: "new_tickets_detected rep = new_tickets_of w snap"
        "baseline_tickets (limits_file w') = baseline_tickets (limits_file w)"
        "effects w' = effects w1 @
          (if n \<le> attempts_after rep \<and> \<not> fst (kill_status (now tk) w)
           then [ArmCall (now tk + minutes (max 1 bm))] else [])"
      by blast
    have "count_list (effects w') (CloseCall t) = count_list (effects w) (CloseCall t)"
      using p(3) c1 by simp
    then show ?thesis using r p(1,2) by (simp add: baseline_of_def)
  qed
qed


lemma enforce_ticks_Cons:
  "enforce_ticks th n bm (tk # tks) w =
     ((case fst (enforce_aggregate_risk tk th n bm w) of Inl e \<Rightarrow> [] | Inr rep \<Rightarrow> [rep]) @
        fst (enforce_ticks th n bm tks (snd (enforce_aggregate_risk tk th n bm w))),
      snd (enforce_ticks th n bm tks (snd (enforce_aggregate_risk tk th n bm w))))"
  by (cases "enforce_aggregate_risk tk th n bm w"; cases "fst (enforce_aggregate_risk tk th n bm w)")
     auto

lemma enforce_ticks_append:
  "enforce_ticks th n bm (xs @ ys) w =
     (fst (enforce_ticks th n bm xs w) @
        fst (enforce_ticks th n bm ys (snd (enforce_ticks th n bm xs w))),
      snd (enforce_ticks th n bm ys (snd (enforce_ticks th n bm xs w))))"
proof (induction xs arbitrary: w)
  case Nil
  then show ?case by simp
next
  case (Cons tk xs)
  show ?case
    unfolding append_Cons enforce_ticks_Cons Cons.IH by simp
qed

lemma enforce_ticks_present:
  assumes "t \<in> set (baseline_of (limits_file w))" and "list_all (ticket_present t) tks"
  shows "t \<in> set (baseline_of (limits_file (snd (enforce_ticks th n bm tks w)))) \<and>
         list_all (\<lambda>r. t \<notin> set (new_tickets_detected r)) (fst (enforce_ticks th n bm tks w)) \<and>
         count_list (effects (snd (enforce_ticks th n bm tks w))) (CloseCall t) =
           count_list (effects w) (CloseCall t)"
  using assms
proof (induction tks arbitrary: w)
  case Nil
  then show ?case by simp
next
  case (Cons tk tks)
  let ?r = "enforce_aggregate_risk tk th n bm w"
  have step: "t \<in> set (baseline_of (limits_file (snd ?r))) \<and>
      (\<forall>rep. fst ?r = Inr rep \<longrightarrow> t \<notin> set (new_tickets_detected rep)) \<and>
      count_list (effects (snd ?r)) (CloseCall t) = count_list (effects w) (CloseCall t)"
  proof (cases "reader_snapshot tk")
    case None
    then show ?thesis using Cons.prems(1)
      by (simp add: enforce_aggregate_risk_snapshot_raises)
  next
    case (Some snap)
    have pr: "t \<in> set (map ticket (positions snap))"
      using Cons.prems(2) Some by (simp add: ticket_present_def)
    have nt: "t \<notin> set (new_tickets_of w snap)"
      using Cons.prems(1) by (simp add: new_tickets_of_def)
    from enforce_summary [OF Some nt, of th n bm] pr Cons.prems(1) nt
    show ?thesis by auto
  qed
  from Cons.prems(2) have "list_all (ticket_present t) tks" by simp
  from Cons.IH [OF _ this, of "snd ?r"] step
  show ?case
    unfolding enforce_ticks_Cons by (auto split: sum.splits)
qed

lemma enforce_ticks_absent:
  assumes "list_all (ticket_absent t) tks"
  shows "list_all (\<lambda>r. t \<notin> set (new_tickets_detected r)) (fst (enforce_ticks th n bm tks w)) \<and>
         count_list (effects (snd (enforce_ticks th n bm tks w))) (CloseCall t) =
           count_list (effects w) (CloseCall t)"
  using assms
proof (induction tks arbitrary: w)
  case Nil
  then show ?case by simp
next
  case (Cons tk tks)
  let ?r = "enforce_aggregate_risk tk th n bm w"
  have step: "(\<forall>rep. fst ?r = Inr rep \<longrightarrow> t \<notin> set (new_tickets_detected rep)) \<and>
      count_list (effects (snd ?r)) (CloseCall t) = count_list (effects w) (CloseCall t)"
  proof (cases "reader_snapshot tk")
    case None
    then show ?thesis by (simp add: enforce_aggregate_risk_snapshot_raises)
  next
    case (Some snap)
    have "t \<notin> set (map ticket (positions snap))"
      using Cons.prems Some by (simp add: ticket_absent_def)
    then have nt: "t \<notin> set (new_tickets_of w snap)"
      by (simp add: new_tickets_of_def)
    from enforce_summary [OF Some nt, of th n bm] nt
    show ?thesis by auto
  qed
  from Cons.prems have "list_all (ticket_absent t) tks" by simp
  from Cons.IH [OF this, of "snd ?r"] step
  show ?case
    unfolding enforce_ticks_Cons by (auto split: sum.splits)
qed

text \<open>
  Claim C3, amended. Let a ticket be in the snapshot of the first run (the
  call that finds the baseline empty), and let the later ticks be such that
  the ticket is in every snapshot up to some tick and in none after it (it
  does not come back once it is gone). Then no report of the run counts the
  ticket as new and the run makes no close call for it, whatever the risk is,
  also on the very next tick.
\<close>

theorem first_observed_ticket_is_tolerated:
  assumes "baseline_of (limits_file w) = []"
      and "reader_snapshot tk0 = Some snap0"
      and "t \<in> set (map ticket (positions snap0))"
      and "list_all (ticket_present t) pre"
      and "list_all (ticket_absent t) post"
  shows "list_all (\<lambda>r. t \<notin> set (new_tickets_detected r))
           (fst (enforce_ticks th n bm (tk0 # pre @ post) w)) \<and>
         count_list (effects (snd (enforce_ticks th n bm (tk0 # pre @ post) w))) (CloseCall t) =
           count_list (effects w) (CloseCall t)"
proof -
  from enforce_first_run [OF assms(2,1), of th n bm] obtain rep0 w0 where
    r0: "enforce_aggregate_risk tk0 th n bm w = (Inr rep0, w0)"
    and p0: "effects w0 = effects w" "new_tickets_detected rep0 = []"
      "baseline_tickets (limits_file w0) = Some (sort (remdups (map ticket (positions snap0))))"
    by blast
  have b0: "t \<in> set (baseline_of (limits_file w0))"
    using p0(3) assms(3) by (simp add: baseline_of_def)
  let ?w1 = "snd (enforce_ticks th n bm pre w0)"
  note a = enforce_ticks_present [OF b0 assms(4), of th n bm]
  note b = enforce_ticks_absent [OF assms(5), of th n bm ?w1]
  have e: "enforce_ticks th n bm (tk0 # pre @ post) w =
      (rep0 # fst (enforce_ticks th n bm pre w0) @ fst (enforce_ticks th n bm post ?w1),
       snd (enforce_ticks th n bm post ?w1))"
    unfolding enforce_ticks_Cons enforce_ticks_append r0 by simp
  show ?thesis
    unfolding e using a b p0(1,2) by simp
qed

text \<open>
  Claim C3 as stated fails for a ticket that leaves the snapshots and comes
  back: ticket 1 is in the first snapshot, missing from the second (risk 3,
  the baseline becomes ticket 2 alone) and back in the third with risk 7
  against 5, where it is counted as new and closed.
\<close>

theorem reappearing_ticket_is_closed:
  "baseline_of (limits_file (example_world empty_state None)) = [] \<and>
   1 \<in> set (map ticket two_positions) \<and>
   map new_tickets_detected (fst (enforce_ticks 5 3 60 reappearing_ticket
      (example_world empty_state None))) = [[], [], [1]] \<and>
   effects (snd (enforce_ticks 5 3 60 reappearing_ticket (example_world empty_state None)))
     = [CloseCall 1]"
  by (simp add: enforce_defs example_defs reappearing_ticket_def empty_state_def)

theorem first_observed_ticket_is_tolerated_witness:
  "baseline_of (limits_file (example_world empty_state None)) = [] \<and>
   reader_snapshot (example_tick 1000 3 two_positions) =
     Some \<lparr>total_risk_pct = 3, positions = two_positions\<rparr> \<and>
   1 \<in> set (map ticket (positions \<lparr>total_risk_pct = 3, positions = two_positions\<rparr>)) \<and>
   list_all (ticket_present 1) tolerated_ticket_run \<and>
   list_all (ticket_absent 1) [example_tick 3000 7 [example_position 2 ''EURUSD'' 0]] \<and>
   list_all (\<lambda>r. 1 \<notin> set (new_tickets_detected r))
     (fst (enforce_ticks 5 3 60
        (example_tick 1000 3 two_positions # tolerated_ticket_run @
           [example_tick 3000 7 [example_position 2 ''EURUSD'' 0]])
        (example_world empty_state None))) \<and>
   count_list (effects (snd (enforce_ticks 5 3 60
        (example_tick 1000 3 two_positions # tolerated_ticket_run @
           [example_tick 3000 7 [example_position 2 ''EURUSD'' 0]])
        (example_world empty_state None)))) (CloseCall 1) = 0 \<and>
   effects (snd (enforce_ticks 5 3 60
        (example_tick 1000 3 two_positions # tolerated_ticket_run @
           [example_tick 3000 7 [example_position 2 ''EURUSD'' 0]])
        (example_world empty_state None))) = [CloseCall 3]"
proof -
  let ?w = "example_world empty_state None"
  let ?snap = "\<lparr>total_risk_pct = 3, positions = two_positions\<rparr>"
  let ?post = "[example_tick 3000 7 [example_position 2 ''EURUSD'' 0]]"
  have h1: "baseline_of (limits_file ?w) = []"
    by (simp add: baseline_of_def example_defs empty_state_def)
  have h2: "reader_snapshot (example_tick 1000 3 two_positions) = Some ?snap"
    by (simp add: example_defs)
  have h3: "1 \<in> set (map ticket (positions ?snap))" by (simp add: example_defs)
  have h4: "list_all (ticket_present 1) tolerated_ticket_run"
    by (simp add: ticket_present_def tolerated_ticket_run_def example_defs)
  have h5: "list_all (ticket_absent 1) ?post"
    by (simp add: ticket_absent_def example_defs)
  have e0: "count_list (effects ?w) (CloseCall 1) = 0" by (simp add: example_defs)
  have ev: "effects (snd (enforce_ticks 5 3 60
        (example_tick 1000 3 two_positions # tolerated_ticket_run @ ?post) ?w)) = [CloseCall 3]"
    by (simp add: enforce_defs example_defs tolerated_ticket_run_def empty_state_def)
  from first_observed_ticket_is_tolerated [OF h1 h2 h3 h4 h5, of 5 3 60]
  show ?thesis using h1 h2 h3 h4 h5 ev unfolding e0 by blast
qed

end
